theory Spec2Isabelle
  imports Main "HOL-Library.Sublist"
begin

section \<open>JavaScript values used by the plugin\<close>

text \<open>
  A JavaScript string is modelled as a \<open>string\<close>. The functions below are the string
  operations that \<open>gatsby-node.js\<close> and \<open>utils.js\<close> call.
\<close>

text \<open>
  \<open>s.indexOf(t)\<close>: the position of the first occurrence of \<open>t\<close> in \<open>s\<close>, or \<open>-1\<close>.
  The empty string occurs at position 0 of every string.
\<close>

fun indexOf :: "string \<Rightarrow> string \<Rightarrow> int" where
  "indexOf [] t = (if t = [] then 0 else - 1)"
| "indexOf (c # s) t =
     (if prefix t (c # s) then 0
      else (let r = indexOf s t in if r < 0 then - 1 else r + 1))"

text \<open>
  \<open>s.replace(/^\/|\/$/, "")\<close>. The regular expression has no \<open>g\<close> flag, so only the
  first match is replaced: a leading slash when there is one, otherwise a trailing slash
  when there is one.
\<close>

definition replaceFirstOuterSlash :: "string \<Rightarrow> string" where
  "replaceFirstOuterSlash s =
     (case s of
        [] \<Rightarrow> []
      | c # cs \<Rightarrow>
          if c = CHR ''/'' then cs
          else if last s = CHR ''/'' then butlast s
          else s)"

text \<open>\<open>s.replace(/\/$/, "")\<close>: one trailing slash is removed.\<close>

definition replaceTrailingSlash :: "string \<Rightarrow> string" where
  "replaceTrailingSlash s =
     (if s \<noteq> [] \<and> last s = CHR ''/'' then butlast s else s)"

text \<open>The value a JavaScript function call evaluates to, where it may be \<open>undefined\<close>.\<close>

datatype jsValue = Undefined | Str string

section \<open>utils.js\<close>

text \<open>
  \<^verbatim>\<open>
  export const withoutTrailingSlash = (path) => {
      path === "/" ? path : path.replace(/\/$/, "");
  };
  \<close>
  The arrow function has a block body whose only statement is an expression statement:
  the conditional is evaluated and its value dropped, and the call returns \<open>undefined\<close>.
  \<open>withoutTrailingSlash_expr\<close> is the value of the expression statement.
\<close>

definition withoutTrailingSlash_expr :: "string \<Rightarrow> string" where
  "withoutTrailingSlash_expr path =
     (if path = ''/'' then path else replaceTrailingSlash path)"

definition withoutTrailingSlash :: "string \<Rightarrow> jsValue" where
  "withoutTrailingSlash path = (let dropped = withoutTrailingSlash_expr path in Undefined)"

section \<open>lodash uniqBy\<close>

text \<open>
  \<open>uniqBy(array, iteratee)\<close> of lodash walks the array once, keeps the list of the
  iteratee values seen so far, and keeps an element exactly when its iteratee value has
  not been seen before.
\<close>

fun baseUniq :: "('a \<Rightarrow> 'k) \<Rightarrow> 'k list \<Rightarrow> 'a list \<Rightarrow> 'a list" where
  "baseUniq f seen [] = []"
| "baseUniq f seen (x # xs) =
     (if f x \<in> set seen then baseUniq f seen xs
      else x # baseUniq f (seen @ [f x]) xs)"

definition uniqBy :: "('a \<Rightarrow> 'k) \<Rightarrow> 'a list \<Rightarrow> 'a list" where
  "uniqBy f xs = baseUniq f [] xs"

section \<open>Errors\<close>

text \<open>
  Every \<open>throw\<close> and every rejected promise is a value of \<open>error\<close>, and a computation
  that may throw returns \<open>error + 'a\<close> with \<open>Inl\<close> for the error.
  \<^item> \<open>Rejected s\<close>: a value thrown by code outside the plugin (the query capability, an
    exclusion predicate, a custom serializer); \<open>s\<close> is what \<open>String(value)\<close> gives.
  \<^item> \<open>ErrorObj m\<close>: \<open>new Error(m)\<close>.
  \<^item> \<open>TypeErrorObj m\<close>: a \<open>TypeError\<close> of the runtime.
\<close>

datatype error = Rejected string | ErrorObj string | TypeErrorObj string

text \<open>\<open>String(error)\<close>, as in \<open>new Error(error)\<close> and in a template literal.\<close>

fun errorToString :: "error \<Rightarrow> string" where
  "errorToString (Rejected s) = s"
| "errorToString (ErrorObj m) = (if m = [] then ''Error'' else ''Error: '' @ m)"
| "errorToString (TypeErrorObj m) = (if m = [] then ''TypeError'' else ''TypeError: '' @ m)"

section \<open>The data of a query\<close>

text \<open>
  A node of the content graph. Only the properties that \<open>runQuery\<close> and \<open>serialize\<close>
  read or write are named: \<open>__typename\<close>, \<open>fields.slug\<close> (\<open>None\<close> when \<open>fields\<close> or
  \<open>fields.slug\<close> is undefined), \<open>slug\<close>, \<open>url\<close> (\<open>node_url\<close>) and \<open>path\<close> (\<open>node_path\<close>);
  \<open>other\<close> holds the rest of the node. An edge is \<open>{ node }\<close>, and a list of edges is the
  list of their nodes.
\<close>

record 'x node =
  typename :: "string option"
  fields_slug :: "string option"
  slug :: "string option"
  node_url :: "string option"
  node_path :: "string option"
  other :: 'x

text \<open>
  What a query returns for one field: \<open>{ edges, pageInfo }\<close>. \<open>edges\<close> is \<open>None\<close> when
  the property is not an array; \<open>hasNextPage\<close> is the truthiness of
  \<open>pageInfo?.hasNextPage\<close>.
\<close>

record 'x connection =
  edges :: "'x node list option"
  hasNextPage :: bool

text \<open>
  An object with string keys is the list of its properties in enumeration order; a
  property may hold \<open>undefined\<close> (\<open>None\<close>). \<open>objectGet\<close> reads a property and
  \<open>objectSet\<close> assigns one: an existing key keeps its place, a new key goes last.
\<close>

type_synonym 'x sources = "(string \<times> 'x connection option) list"

definition objectGet :: "(string \<times> 'v option) list \<Rightarrow> string \<Rightarrow> 'v option" where
  "objectGet obj k = (case map_of obj k of None \<Rightarrow> None | Some v \<Rightarrow> v)"

fun objectSet :: "string \<Rightarrow> 'v \<Rightarrow> (string \<times> 'v) list \<Rightarrow> (string \<times> 'v) list" where
  "objectSet k v [] = [(k, v)]"
| "objectSet k v (p # ps) = (if fst p = k then (k, v) # ps else p # objectSet k v ps)"

text \<open>
  The query capability \<open>handler(queryString, params?)\<close>: it resolves to a response \<open>r\<close>,
  of which the plugin reads \<open>r.data\<close> (\<open>None\<close> when undefined), or it rejects. It is a
  function of the request: the data source does not change during a build. The calls of
  \<open>activity.setStatus\<close> and the pause of one second after each query change no value
  and are left out.
\<close>

record params =
  limit :: nat
  skip :: nat

type_synonym 'x handler = "string \<Rightarrow> params option \<Rightarrow> error + 'x sources option"

text \<open>\<open>r.data?.[queryKey]\<close>\<close>

definition dataAt :: "'x sources option \<Rightarrow> string \<Rightarrow> 'x connection option" where
  "dataAt d k = (case d of None \<Rightarrow> None | Some obj \<Rightarrow> objectGet obj k)"

text \<open>
  What the plugin does to the outside, in order: a request to the query capability, and
  a call of a custom serializer with the edge list it is given.
\<close>

datatype 'x event = Query string "params option" | Serializer string "'x node list"

section \<open>splitQueryInSmallerBatches\<close>

text \<open>\<open>tempData?.pageInfo?.hasNextPage\<close>\<close>

definition nextPage :: "'x connection option \<Rightarrow> bool" where
  "nextPage tempData = (case tempData of None \<Rightarrow> False | Some c \<Rightarrow> hasNextPage c)"

text \<open>
  \<^verbatim>\<open>
  if (tempData?.edges && tempData.edges.length &&
      tempDataMore?.edges && tempDataMore.edges.length) {
      tempData.edges = tempData.edges.concat(tempDataMore.edges);
  }
  \<close>
  The value is \<open>tempData\<close> after the statement.
\<close>

definition concatEdges ::
  "'x connection option \<Rightarrow> 'x connection option \<Rightarrow> 'x connection option" where
  "concatEdges tempData tempDataMore =
     (case tempData of
        None \<Rightarrow> None
      | Some t \<Rightarrow>
          (case edges t of
             None \<Rightarrow> Some t
           | Some es \<Rightarrow>
               (case tempDataMore of
                  None \<Rightarrow> Some t
                | Some m \<Rightarrow>
                    (case edges m of
                       None \<Rightarrow> Some t
                     | Some ms \<Rightarrow>
                         if es \<noteq> [] \<and> ms \<noteq> []
                         then Some (t\<lparr>edges := Some (es @ ms)\<rparr>)
                         else Some t))))"

text \<open>
  \<open>fetchPages\<close>, the recursive closure of \<open>splitQueryInSmallerBatches\<close>. The closure
  variable \<open>currentPage\<close> is incremented before the recursive call and read only to
  compute that call's \<open>skip\<close>, so it is passed down as an argument. The recursion goes on
  for as long as the responses report a next page: a run that never returns is \<open>None\<close>.
  The result is the list of requests issued and the value returned or the error thrown.
\<close>

partial_function (option) fetchPages ::
  "'x handler \<Rightarrow> string \<Rightarrow> string \<Rightarrow> nat \<Rightarrow> nat \<Rightarrow> params \<Rightarrow>
     ('x event list \<times> (error + 'x connection option)) option" where
  "fetchPages handler queryKey queryString itemsPerPage currentPage queryParams =
     (case handler queryString (Some queryParams) of
        Inl e \<Rightarrow> Some ([Query queryString (Some queryParams)], Inl e)
      | Inr r \<Rightarrow>
          (let tempData = dataAt r queryKey in
           if nextPage tempData then
             Option.bind
               (fetchPages handler queryKey queryString itemsPerPage (currentPage + 1)
                  (queryParams\<lparr>skip := (currentPage + 1) * itemsPerPage\<rparr>))
               (\<lambda>(evs, res).
                  Some (Query queryString (Some queryParams) # evs,
                        case res of
                          Inl e \<Rightarrow> Inl e
                        | Inr tempDataMore \<Rightarrow> Inr (concatEdges tempData tempDataMore)))
           else Some ([Query queryString (Some queryParams)], Inr tempData)))"

text \<open>
  A single request without parameters, of which \<open>r.data?.[queryKey]\<close> is kept:
  \<open>handler(queryString).then((r) => r.data?.[queryKey])\<close>.
\<close>

definition singleQuery ::
  "'x handler \<Rightarrow> string \<Rightarrow> string \<Rightarrow> 'x event list \<times> (error + 'x connection option)" where
  "singleQuery handler queryKey queryString =
     ([Query queryString None],
      case handler queryString None of
        Inl e \<Rightarrow> Inl e
      | Inr r \<Rightarrow> Inr (dataAt r queryKey))"

text \<open>
  \<open>splitQueryInSmallerBatches\<close>: the parameter \<open>splitQueryPageSize = 100\<close> takes its
  default when the argument is undefined (\<open>pageSizeOrDefault\<close>); any error thrown by
  \<open>fetchPages\<close> is caught and answered with one request without parameters.
\<close>

definition pageSizeOrDefault :: "nat option \<Rightarrow> nat" where
  "pageSizeOrDefault splitQueryPageSize =
     (case splitQueryPageSize of None \<Rightarrow> 100 | Some n \<Rightarrow> n)"

definition splitQueryInSmallerBatches ::
  "'x handler \<Rightarrow> string \<Rightarrow> string \<Rightarrow> nat option \<Rightarrow>
     ('x event list \<times> (error + 'x connection option)) option" where
  "splitQueryInSmallerBatches handler queryKey queryString splitQueryPageSize =
     (let itemsPerPage = pageSizeOrDefault splitQueryPageSize in
      Option.bind
        (fetchPages handler queryKey queryString itemsPerPage 0
           \<lparr>limit = itemsPerPage, skip = 0\<rparr>)
        (\<lambda>(evs, res).
           case res of
             Inr tempData \<Rightarrow> Some (evs, Inr tempData)
           | Inl _ \<Rightarrow>
               (let (evs', res') = singleQuery handler queryKey queryString
                in Some (evs @ evs', res'))))"

section \<open>runQueriesSequentially\<close>

text \<open>
  The condition under which a query is split into pages:
  \<^verbatim>\<open>
  item.queryString.indexOf("hasNextPage") > -1 &&
  item.queryString.indexOf("$limit:") > -1 &&
  item.queryString.indexOf("$skip:") > -1 &&
  item.queryString.indexOf("limit: $limit") > -1 &&
  item.queryString.indexOf("skip: $skip") > -1
  \<close>
\<close>

definition hasPaginationMarkers :: "string \<Rightarrow> bool" where
  "hasPaginationMarkers queryString \<longleftrightarrow>
     indexOf queryString ''hasNextPage'' > - 1 \<and>
     indexOf queryString ''$limit:'' > - 1 \<and>
     indexOf queryString ''$skip:'' > - 1 \<and>
     indexOf queryString ''limit: $limit'' > - 1 \<and>
     indexOf queryString ''skip: $skip'' > - 1"

text \<open>The body of the \<open>for\<close> loop for one query: the requests and the value assigned.\<close>

definition runItem ::
  "'x handler \<Rightarrow> nat option \<Rightarrow> string \<Rightarrow> string \<Rightarrow>
     ('x event list \<times> (error + 'x connection option)) option" where
  "runItem handler splitQueryPageSize queryKey queryString =
     (if hasPaginationMarkers queryString
      then splitQueryInSmallerBatches handler queryKey queryString splitQueryPageSize
      else Some (singleQuery handler queryKey queryString))"

text \<open>
  The \<open>for\<close> loop over \<open>Object.entries(queryObject)\<close>, with \<open>responsesObject\<close> as its
  state. An error leaves the loop at once.
\<close>

fun runQueriesLoop ::
  "'x handler \<Rightarrow> nat option \<Rightarrow> (string \<times> string) list \<Rightarrow> 'x sources \<Rightarrow>
     ('x event list \<times> (error + 'x sources)) option" where
  "runQueriesLoop handler splitQueryPageSize [] responsesObject = Some ([], Inr responsesObject)"
| "runQueriesLoop handler splitQueryPageSize (item # queries) responsesObject =
     (case runItem handler splitQueryPageSize (fst item) (snd item) of
        None \<Rightarrow> None
      | Some (evs, Inl e) \<Rightarrow> Some (evs, Inl e)
      | Some (evs, Inr v) \<Rightarrow>
          (case runQueriesLoop handler splitQueryPageSize queries
                  (objectSet (fst item) v responsesObject) of
             None \<Rightarrow> None
           | Some (evs', res) \<Rightarrow> Some (evs @ evs', res)))"

text \<open>
  \<open>runQueriesSequentially\<close>: the loop inside \<open>try\<close>, and
  \<open>catch (error) { throw new Error(error); }\<close>.
\<close>

definition runQueriesSequentially ::
  "'x handler \<Rightarrow> (string \<times> string) list \<Rightarrow> nat option \<Rightarrow>
     ('x event list \<times> (error + 'x sources)) option" where
  "runQueriesSequentially handler queryObject splitQueryPageSize =
     (case runQueriesLoop handler splitQueryPageSize queryObject [] of
        None \<Rightarrow> None
      | Some (evs, Inl e) \<Rightarrow> Some (evs, Inl (ErrorObj (errorToString e)))
      | Some (evs, Inr responsesObject) \<Rightarrow> Some (evs, Inr responsesObject))"

section \<open>runQuery\<close>

text \<open>
  An entry of \<open>exclude\<close>, by what \<open>typeof\<close> says of it:
  \<^item> \<open>RouteString s\<close>: a string;
  \<^item> \<open>RouteFunction f\<close>: a function of the node, which returns a value (its truthiness is
    kept) or throws;
  \<^item> \<open>RouteObject valid test\<close>: an object. \<open>valid\<close> says whether
    \<open>new RegExp(excludedRoute)\<close> succeeds, and \<open>test slug\<close> is what
    \<open>excludedRoute.test(slug)\<close> gives. Both belong to the JavaScript runtime.
\<close>

datatype 'x excludedRoute =
    RouteString string
  | RouteFunction "'x node \<Rightarrow> error + bool"
  | RouteObject bool "string \<Rightarrow> error + bool"

text \<open>
  An entry of \<open>mapping\<close>: \<open>{ sitemap, path, prefix, serializer }\<close>, where \<open>path'\<close> and
  \<open>prefix'\<close> stand for \<open>path\<close> and \<open>prefix\<close>. \<open>serializer\<close> is \<open>None\<close> unless it is a function; a serializer
  returns an array (\<open>Inr (Some edges)\<close>), something else (\<open>Inr None\<close>), or throws.
\<close>

record 'x mappingRule =
  sitemap :: "string option"
  path' :: "string option"
  prefix' :: "string option"
  serializer :: "('x node list \<Rightarrow> error + 'x node list option) option"

type_synonym 'x mapping = "(string \<times> 'x mappingRule) list"

text \<open>\<open>typeof mapping?.[sourceKey]?.serializer === "function"\<close>, and the function.\<close>

definition serializerOf ::
  "'x mapping option \<Rightarrow> string \<Rightarrow> ('x node list \<Rightarrow> error + 'x node list option) option" where
  "serializerOf mapping sourceKey =
     (case mapping of
        None \<Rightarrow> None
      | Some m \<Rightarrow> (case map_of m sourceKey of None \<Rightarrow> None | Some rule \<Rightarrow> serializer rule))"

text \<open>
  The first statement of the \<open>forEach\<close> body of \<open>runQuery\<close>:
  \<^verbatim>\<open>
  if (typeof mapping?.[sourceKey]?.serializer === "function") {
      if (sources[sourceKey] && Array.isArray(sources[sourceKey].edges)) {
          const serializedEdges = mapping[sourceKey].serializer(sources[sourceKey].edges);
          if (!Array.isArray(serializedEdges)) {
              throw new Error("Custom sitemap serializer must return an array");
          }
          sources[sourceKey].edges = serializedEdges;
      }
  }
  \<close>
\<close>

definition applySerializer ::
  "'x mapping option \<Rightarrow> string \<Rightarrow> 'x sources \<Rightarrow> 'x event list \<times> (error + 'x sources)" where
  "applySerializer mapping sourceKey sources =
     (case serializerOf mapping sourceKey of
        None \<Rightarrow> ([], Inr sources)
      | Some f \<Rightarrow>
          (case objectGet sources sourceKey of
             None \<Rightarrow> ([], Inr sources)
           | Some c \<Rightarrow>
               (case edges c of
                  None \<Rightarrow> ([], Inr sources)
                | Some es \<Rightarrow>
                    (case f es of
                       Inl e \<Rightarrow> ([Serializer sourceKey es], Inl e)
                     | Inr None \<Rightarrow>
                         ([Serializer sourceKey es],
                          Inl (ErrorObj ''Custom sitemap serializer must return an array''))
                     | Inr (Some serializedEdges) \<Rightarrow>
                         ([Serializer sourceKey es],
                          Inr (objectSet sourceKey (Some (c\<lparr>edges := Some serializedEdges\<rparr>))
                                 sources))))))"

text \<open>
  The slug of a node, as the callback of \<open>exclude.some\<close> computes it:
  \<^verbatim>\<open>
  const sourceType = node.__typename ? `all${node.__typename}` : sourceKey;
  const slug =
      sourceType === "allMarkdownRemark" || sourceType === "allMdx" || node?.fields?.slug
          ? node.fields.slug.replace(/^\/|\/$/, "")
          : node.slug.replace(/^\/|\/$/, "");
  \<close>
  Reading \<open>replace\<close> of an undefined property throws a \<open>TypeError\<close>.
\<close>

definition truthyString :: "string option \<Rightarrow> bool" where
  "truthyString v = (case v of None \<Rightarrow> False | Some s \<Rightarrow> s \<noteq> [])"

definition nodeSlug :: "string \<Rightarrow> 'x node \<Rightarrow> error + string" where
  "nodeSlug sourceKey n =
     (let sourceType =
            (case typename n of
               None \<Rightarrow> sourceKey
             | Some t \<Rightarrow> if t \<noteq> [] then ''all'' @ t else sourceKey)
      in if sourceType = ''allMarkdownRemark'' \<or> sourceType = ''allMdx''
            \<or> truthyString (fields_slug n)
         then (case fields_slug n of
                 None \<Rightarrow> Inl (TypeErrorObj ''Cannot read properties of undefined'')
               | Some s \<Rightarrow> Inr (replaceFirstOuterSlash s))
         else (case slug n of
                 None \<Rightarrow> Inl (TypeErrorObj ''Cannot read properties of undefined'')
               | Some s \<Rightarrow> Inr (replaceFirstOuterSlash s)))"

text \<open>
  The callback of \<open>exclude.some\<close> for one node and one entry of \<open>exclude\<close>: the slug is
  computed first, a string entry is passed through the same \<open>replace\<close>, and then the
  entry is applied by its type.
\<close>

definition isExcludedBy :: "string \<Rightarrow> 'x node \<Rightarrow> 'x excludedRoute \<Rightarrow> error + bool" where
  "isExcludedBy sourceKey n excludedRoute =
     (case nodeSlug sourceKey n of
        Inl e \<Rightarrow> Inl e
      | Inr slug' \<Rightarrow>
          (case excludedRoute of
             RouteFunction f \<Rightarrow> f n
           | RouteObject valid test \<Rightarrow>
               if \<not> valid then Inl (ErrorObj ''Excluded route is not a valid RegExp: '')
               else test slug'
           | RouteString s \<Rightarrow> Inr (indexOf slug' (replaceFirstOuterSlash s) \<ge> 0)))"

text \<open>
  \<open>Array.prototype.some\<close> and \<open>Array.prototype.filter\<close> with a callback that may throw:
  the elements are visited in order, \<open>some\<close> stops at the first hit, and an error ends
  the walk.
\<close>

fun someE :: "('a \<Rightarrow> error + bool) \<Rightarrow> 'a list \<Rightarrow> error + bool" where
  "someE p [] = Inr False"
| "someE p (x # xs) =
     (case p x of
        Inl e \<Rightarrow> Inl e
      | Inr b \<Rightarrow> if b then Inr True else someE p xs)"

fun filterE :: "('a \<Rightarrow> error + bool) \<Rightarrow> 'a list \<Rightarrow> error + 'a list" where
  "filterE p [] = Inr []"
| "filterE p (x # xs) =
     (case p x of
        Inl e \<Rightarrow> Inl e
      | Inr b \<Rightarrow>
          (case filterE p xs of
             Inl e \<Rightarrow> Inl e
           | Inr ys \<Rightarrow> Inr (if b then x # ys else ys)))"

text \<open>The callback of \<open>filter\<close>: \<open>!exclude.some(...)\<close>.\<close>

definition keepNode :: "'x excludedRoute list \<Rightarrow> string \<Rightarrow> 'x node \<Rightarrow> error + bool" where
  "keepNode exclude sourceKey n =
     (case someE (isExcludedBy sourceKey n) exclude of
        Inl e \<Rightarrow> Inl e
      | Inr b \<Rightarrow> Inr (\<not> b))"

text \<open>
  The second statement of the \<open>forEach\<close> body:
  \<^verbatim>\<open>
  if (sources[sourceKey]?.edges && sources[sourceKey].edges.length) {
      sources[sourceKey].edges = sources[sourceKey].edges.filter(...);
  }
  \<close>
\<close>

definition removeExcluded ::
  "'x excludedRoute list \<Rightarrow> string \<Rightarrow> 'x sources \<Rightarrow> error + 'x sources" where
  "removeExcluded exclude sourceKey sources =
     (case objectGet sources sourceKey of
        None \<Rightarrow> Inr sources
      | Some c \<Rightarrow>
          (case edges c of
             None \<Rightarrow> Inr sources
           | Some es \<Rightarrow>
               if es = [] then Inr sources
               else (case filterE (keepNode exclude sourceKey) es of
                       Inl e \<Rightarrow> Inl e
                     | Inr kept \<Rightarrow>
                         Inr (objectSet sourceKey (Some (c\<lparr>edges := Some kept\<rparr>)) sources))))"

text \<open>The \<open>forEach\<close> body for one key, and the \<open>forEach\<close> over \<open>Object.keys(sources)\<close>.\<close>

definition processSource ::
  "'x mapping option \<Rightarrow> 'x excludedRoute list \<Rightarrow> string \<Rightarrow> 'x sources \<Rightarrow>
     'x event list \<times> (error + 'x sources)" where
  "processSource mapping exclude sourceKey sources =
     (case applySerializer mapping sourceKey sources of
        (evs, Inl e) \<Rightarrow> (evs, Inl e)
      | (evs, Inr sources') \<Rightarrow> (evs, removeExcluded exclude sourceKey sources'))"

fun forEachSource ::
  "'x mapping option \<Rightarrow> 'x excludedRoute list \<Rightarrow> string list \<Rightarrow> 'x sources \<Rightarrow>
     'x event list \<times> (error + 'x sources)" where
  "forEachSource mapping exclude [] sources = ([], Inr sources)"
| "forEachSource mapping exclude (sourceKey # keys) sources =
     (case processSource mapping exclude sourceKey sources of
        (evs, Inl e) \<Rightarrow> (evs, Inl e)
      | (evs, Inr sources') \<Rightarrow>
          (case forEachSource mapping exclude keys sources' of
             (evs', res) \<Rightarrow> (evs @ evs', res)))"

text \<open>
  The \<open>query\<close> option: a string, or an object of query strings by key
  (\<open>typeof query === "object"\<close>).
\<close>

datatype query = QueryString string | QueryObject "(string \<times> string) list"

text \<open>
  \<open>runQuery\<close>. With a query string, \<open>sources\<close> is \<open>r.data\<close>, and \<open>Object.keys\<close> of an
  undefined value throws a \<open>TypeError\<close>.
\<close>

definition fetchSources ::
  "'x handler \<Rightarrow> query \<Rightarrow> nat option \<Rightarrow> ('x event list \<times> (error + 'x sources option)) option" where
  "fetchSources handler query splitQueryPageSize =
     (case query of
        QueryObject queryObject \<Rightarrow>
          (case runQueriesSequentially handler queryObject splitQueryPageSize of
             None \<Rightarrow> None
           | Some (evs, Inl e) \<Rightarrow> Some (evs, Inl e)
           | Some (evs, Inr responsesObject) \<Rightarrow> Some (evs, Inr (Some responsesObject)))
      | QueryString queryString \<Rightarrow>
          Some ([Query queryString None], handler queryString None))"

definition runQuery ::
  "'x handler \<Rightarrow> query \<Rightarrow> 'x mapping option \<Rightarrow> 'x excludedRoute list \<Rightarrow> nat option \<Rightarrow>
     ('x event list \<times> (error + 'x sources)) option" where
  "runQuery handler query mapping exclude splitQueryPageSize =
     (case fetchSources handler query splitQueryPageSize of
        None \<Rightarrow> None
      | Some (evs, Inl e) \<Rightarrow> Some (evs, Inl e)
      | Some (evs, Inr None) \<Rightarrow>
          Some (evs, Inl (TypeErrorObj ''Cannot convert undefined or null to object''))
      | Some (evs, Inr (Some sources)) \<Rightarrow>
          (case forEachSource mapping exclude (map fst sources) sources of
             (evs', res) \<Rightarrow> Some (evs @ evs', res)))"

section \<open>onPostBuild: running the queries\<close>

text \<open>
  The options of the plugin that the query phase and \<open>serialize\<close> read, as they are after \<open>onPostBuild\<close>
  has merged \<open>pluginOptions\<close> into the defaults. \<open>query\<close> and \<open>mapping\<close> are \<open>None\<close> when
  undefined.
\<close>

record 'x options =
  skipDefaultQuery :: bool
  query :: "query option"
  mapping :: "'x mapping option"
  exclude :: "'x excludedRoute list"
  splitQueryPageSize :: "nat option"
  siteUrl :: "string option"
  addUncaughtPages :: bool

text \<open>The truthiness of \<open>options.query\<close>: an empty string is falsy, an object is truthy.\<close>

definition truthyQuery :: "query option \<Rightarrow> bool" where
  "truthyQuery q =
     (case q of
        None \<Rightarrow> False
      | Some (QueryString s) \<Rightarrow> s \<noteq> []
      | Some (QueryObject _) \<Rightarrow> True)"

text \<open>
  \<^verbatim>\<open>
  if (!(options.skipDefaultQuery && options.query)) {
      try {
          defaultQueryRecords = await runQuery(graphql, activity, {
              query: DEFAULTQUERY, exclude: options.exclude });
      } catch (err) {
          throw new Error(`Something went wrong running default query: ${err}`);
      }
  }
  \<close>
  \<open>DEFAULTQUERY\<close> is a constant of \<open>defaults.js\<close> and a parameter here.
\<close>

definition runDefaultQuery ::
  "'x handler \<Rightarrow> string \<Rightarrow> 'x options \<Rightarrow>
     ('x event list \<times> (error + 'x sources option)) option" where
  "runDefaultQuery graphql DEFAULTQUERY options =
     (if \<not> (skipDefaultQuery options \<and> truthyQuery (query options))
      then (case runQuery graphql (QueryString DEFAULTQUERY) None (exclude options) None of
              None \<Rightarrow> None
            | Some (evs, Inl err) \<Rightarrow>
                Some (evs, Inl (ErrorObj (''Something went wrong running default query: ''
                                            @ errorToString err)))
            | Some (evs, Inr defaultQueryRecords) \<Rightarrow> Some (evs, Inr (Some defaultQueryRecords)))
      else Some ([], Inr None))"

text \<open>
  \<^verbatim>\<open>
  if (!options.query || !options.mapping) {
      options.mapping = options.mapping || DEFAULTMAPPING;
  } else {
      try {
          queryRecords = await runQuery(graphql, activity, options);
      } catch (err) {
          throw new Error(`Something went wrong running custom query: ${err}`);
      }
  }
  \<close>
\<close>

definition runCustomQuery ::
  "'x handler \<Rightarrow> 'x options \<Rightarrow> ('x event list \<times> (error + 'x sources option)) option" where
  "runCustomQuery graphql options =
     (case query options of
        None \<Rightarrow> Some ([], Inr None)
      | Some q \<Rightarrow>
          if \<not> truthyQuery (query options) \<or> mapping options = None then Some ([], Inr None)
          else (case runQuery graphql q (mapping options) (exclude options)
                       (splitQueryPageSize options) of
                  None \<Rightarrow> None
                | Some (evs, Inl err) \<Rightarrow>
                    Some (evs, Inl (ErrorObj (''Something went wrong running custom query: ''
                                                @ errorToString err)))
                | Some (evs, Inr queryRecords) \<Rightarrow> Some (evs, Inr (Some queryRecords))))"

text \<open>
  The query phase of \<open>onPostBuild\<close>: the default query, then the custom query. The result is
  \<open>(queryRecords, defaultQueryRecords)\<close>, or the error that ends the build.
\<close>

definition onPostBuildQueries ::
  "'x handler \<Rightarrow> string \<Rightarrow> 'x options \<Rightarrow>
     ('x event list \<times> (error + 'x sources option \<times> 'x sources option)) option" where
  "onPostBuildQueries graphql DEFAULTQUERY options =
     (case runDefaultQuery graphql DEFAULTQUERY options of
        None \<Rightarrow> None
      | Some (evs, Inl e) \<Rightarrow> Some (evs, Inl e)
      | Some (evs, Inr defaultQueryRecords) \<Rightarrow>
          (case runCustomQuery graphql options of
             None \<Rightarrow> None
           | Some (evs', Inl e) \<Rightarrow> Some (evs @ evs', Inl e)
           | Some (evs', Inr queryRecords) \<Rightarrow>
               Some (evs @ evs', Inr (queryRecords, defaultQueryRecords))))"

section \<open>serialize\<close>

text \<open>
  A record of a sitemap, as \<open>serialize\<close> builds it: \<open>{ url, node }\<close>.
\<close>

record 'n source =
  url :: string
  node :: 'n




text \<open>
  \<open>defaultQueryRecords\<close>, of which \<open>serialize\<close> reads \<open>site?.siteMetadata.siteUrl\<close> and
  \<open>allSitePage\<close>.
\<close>

record 'x defaultQueryRecords =
  site_siteUrl :: "string option"
  allSitePage :: "'x connection option"














section \<open>A paged source\<close>

text \<open>
  What the claims about paging assume of the query capability. \<open>pageResponse\<close>: the
  request with parameters \<open>prm\<close> resolves, and the response holds for \<open>queryKey\<close> the
  edge list \<open>es\<close> and reports a next page exactly when \<open>next\<close>.
  \<open>pagedSourceFrom ... j pages\<close>: the pages \<open>j, j + 1, ...\<close> of the source are \<open>pages\<close>, each
  asked for with \<open>skip = page * itemsPerPage\<close>, and every page but the last reports a next
  page.
\<close>

definition pageResponse ::
  "'x handler \<Rightarrow> string \<Rightarrow> string \<Rightarrow> params \<Rightarrow> 'x node list \<Rightarrow> bool \<Rightarrow> bool" where
  "pageResponse handler queryKey queryString prm es next =
     (case handler queryString (Some prm) of
        Inl _ \<Rightarrow> False
      | Inr r \<Rightarrow>
          (case dataAt r queryKey of
             None \<Rightarrow> False
           | Some c \<Rightarrow> edges c = Some es \<and> hasNextPage c = next))"

fun pagedSourceFrom ::
  "'x handler \<Rightarrow> string \<Rightarrow> string \<Rightarrow> nat \<Rightarrow> nat \<Rightarrow> 'x node list list \<Rightarrow> bool" where
  "pagedSourceFrom handler queryKey queryString itemsPerPage j [] = True"
| "pagedSourceFrom handler queryKey queryString itemsPerPage j (p # ps) =
     (pageResponse handler queryKey queryString \<lparr>limit = itemsPerPage, skip = j * itemsPerPage\<rparr>
        p (ps \<noteq> []) \<and>
      pagedSourceFrom handler queryKey queryString itemsPerPage (Suc j) ps)"

text \<open>The requests for the pages \<open>j, ..., j + n - 1\<close>, in order.\<close>

definition pageRequests :: "string \<Rightarrow> nat \<Rightarrow> nat \<Rightarrow> nat \<Rightarrow> 'x event list" where
  "pageRequests queryString itemsPerPage j n =
     map (\<lambda>k. Query queryString (Some \<lparr>limit = itemsPerPage, skip = k * itemsPerPage\<rparr>))
       [j..<j + n]"

section \<open>Reading the events\<close>

text \<open>The edge lists with which the serializer of the source \<open>key\<close> was called, in order.\<close>

fun serializerCalls :: "string \<Rightarrow> 'x event list \<Rightarrow> 'x node list list" where
  "serializerCalls key [] = []"
| "serializerCalls key (Query qs prm # evs) = serializerCalls key evs"
| "serializerCalls key (Serializer k es # evs) =
     (if k = key then es # serializerCalls key evs else serializerCalls key evs)"

text \<open>
  The records given to the manager for the sitemap type \<open>name\<close>, in the order of the
  calls.
\<close>

definition fed :: "string \<Rightarrow> (string \<times> 'v) list \<Rightarrow> 'v list" where
  "fed name calls = map snd (filter (\<lambda>c. fst c = name) calls)"

section \<open>The normalisation of the specification\<close>

text \<open>
  The specification speaks of a slug and of a literal rule with "leading and trailing
  slashes stripped". \<open>stripOuterSlashes\<close> follows these words: a leading slash and a
  trailing slash are both removed. It is what the regular expression of the source would
  do with the \<open>g\<close> flag, and it is compared below with \<open>replaceFirstOuterSlash\<close>, which is
  what the source does.
\<close>

definition stripOuterSlashes :: "string \<Rightarrow> string" where
  "stripOuterSlashes s =
     (let s1 = (case s of [] \<Rightarrow> [] | c # cs \<Rightarrow> if c = CHR ''/'' then cs else s)
      in if s1 \<noteq> [] \<and> last s1 = CHR ''/'' then butlast s1 else s1)"

section \<open>Example inputs\<close>

text \<open>
  A simulated paged source: asked with parameters, it answers with the page that \<open>skip\<close>
  points at and reports a next page for every page but the last; asked without
  parameters, it answers with all records at once.
\<close>

definition simulatedSource :: "string \<Rightarrow> nat \<Rightarrow> 'x node list list \<Rightarrow> 'x handler" where
  "simulatedSource queryKey itemsPerPage pages queryString prm =
     (case prm of
        None \<Rightarrow> Inr (Some [(queryKey, Some \<lparr>edges = Some (concat pages), hasNextPage = False\<rparr>)])
      | Some p \<Rightarrow>
          (let k = skip p div itemsPerPage
           in Inr (Some [(queryKey,
                Some \<lparr>edges = Some (if k < length pages then pages ! k else []),
                      hasNextPage = (Suc k < length pages)\<rparr>)])))"

definition exampleNode :: "string \<Rightarrow> nat \<Rightarrow> nat node" where
  "exampleNode s k =
     \<lparr>typename = None, fields_slug = None, slug = Some s, node_url = None, node_path = None,
      other = k\<rparr>"

text \<open>Three pages of 100 records each.\<close>

definition threePages :: "nat node list list" where
  "threePages =
     map (\<lambda>i. map (exampleNode ''post'') [i * 100..<Suc i * 100]) [0, 1, 2]"

text \<open>Three pages of which the second one is empty.\<close>

definition pagesWithGap :: "nat node list list" where
  "pagesWithGap = [[exampleNode ''a'' 0], [], [exampleNode ''c'' 2]]"

text \<open>
  Two queries of a query object, one with the pagination markers and one without; a
  source of two pages; a query capability that rejects every request with parameters;
  and one that rejects every request.
\<close>

definition pagedQueryString :: string where
  "pagedQueryString =
     ''query ($limit: Int, $skip: Int) { allSitePage(limit: $limit skip: $skip) { pageInfo { hasNextPage } edges { node { slug } } } }''"

definition plainQueryString :: string where
  "plainQueryString = ''{ allGhostPost { edges { node { slug } } } }''"

definition twoPages :: "nat node list list" where
  "twoPages =
     [[exampleNode ''a'' 0, exampleNode ''b'' 1], [exampleNode ''c'' 2, exampleNode ''d'' 3]]"

definition rejectingPagination :: "nat node list \<Rightarrow> nat handler" where
  "rejectingPagination es queryString prm =
     (case prm of
        Some p \<Rightarrow> Inl (Rejected ''Unknown argument limit'')
      | None \<Rightarrow> Inr (Some [(''allSitePage'', Some \<lparr>edges = Some es, hasNextPage = False\<rparr>)]))"

definition rejectingAll :: "nat handler" where
  "rejectingAll queryString prm = Inl (Rejected ''connection refused'')"

text \<open>
  A query capability that answers every request with the same data; a regular expression
  that matches nothing; an exclusion predicate that throws; sources with one field; a
  mapping without a serializer; and options that run the custom query only, or the
  default query only.
\<close>

definition staticSource :: "'x sources \<Rightarrow> 'x handler" where
  "staticSource d queryString prm = Inr (Some d)"

definition neverMatches :: "string \<Rightarrow> error + bool" where
  "neverMatches s = Inr False"

definition throwingPredicate :: "nat node \<Rightarrow> error + bool" where
  "throwingPredicate n = Inl (Rejected ''boom'')"

definition ghostPosts :: "nat node list \<Rightarrow> nat sources" where
  "ghostPosts es = [(''allGhostPost'', Some \<lparr>edges = Some es, hasNextPage = False\<rparr>)]"

definition postsMapping :: "nat mapping" where
  "postsMapping = [(''allGhostPost'', \<lparr>sitemap = Some ''posts'', path' = None, prefix' = None, serializer = None\<rparr>)]"

definition customQueryOnlyOptions :: "nat excludedRoute list \<Rightarrow> nat options" where
  "customQueryOnlyOptions ex =
     \<lparr>skipDefaultQuery = True, query = Some (QueryString plainQueryString),
      mapping = Some postsMapping, exclude = ex, splitQueryPageSize = None,
      siteUrl = Some ''https://example.com'', addUncaughtPages = False\<rparr>"

definition defaultQueryOnlyOptions :: "nat excludedRoute list \<Rightarrow> nat options" where
  "defaultQueryOnlyOptions ex =
     \<lparr>skipDefaultQuery = False, query = None, mapping = None, exclude = ex,
      splitQueryPageSize = None, siteUrl = None, addUncaughtPages = False\<rparr>"

definition sitePages :: "nat node list \<Rightarrow> nat sources" where
  "sitePages es = [(''allSitePage'', Some \<lparr>edges = Some es, hasNextPage = False\<rparr>)]"

definition defaultQueryString :: string where
  "defaultQueryString = ''{ allSitePage { edges { node { id slug: path url: path } } } }''"

text \<open>
  A serializer that reverses the edge list, one that does not return an array, a mapping
  with a serializer, and a query result whose field is null.
\<close>

definition reverseEdges :: "nat node list \<Rightarrow> error + nat node list option" where
  "reverseEdges es = Inr (Some (rev es))"

definition notAnArray :: "nat node list \<Rightarrow> error + nat node list option" where
  "notAnArray es = Inr None"

definition serializedMapping ::
  "(nat node list \<Rightarrow> error + nat node list option) \<Rightarrow> nat mapping" where
  "serializedMapping f = [(''allGhostPost'', \<lparr>sitemap = Some ''posts'', path' = None, prefix' = None, serializer = Some f\<rparr>)]"

definition nullSource :: "nat sources" where
  "nullSource = [(''allGhostPost'', None)]"

text \<open>Options without a query, whose mapping has a serializer for \<open>allSitePage\<close>.\<close>

definition sitePagesSerializerOptions :: "nat options" where
  "sitePagesSerializerOptions =
     \<lparr>skipDefaultQuery = False, query = None,
      mapping = Some [(''allSitePage'',
        \<lparr>sitemap = Some ''pages'', path' = None, prefix' = None, serializer = Some reverseEdges\<rparr>)],
      exclude = [], splitQueryPageSize = None, siteUrl = None, addUncaughtPages = False\<rparr>"









section \<open>Properties of the string operations\<close>

lemma indexOf_ge_minus_one: "- 1 \<le> indexOf s t"
  by (induction s) (auto simp: Let_def)

lemma indexOf_found_iff_sublist: "0 \<le> indexOf s t \<longleftrightarrow> sublist t s"
proof (induction s)
  case Nil
  show ?case by simp
next
  case (Cons c s)
  show ?case
  proof (cases "prefix t (c # s)")
    case True
    then show ?thesis by simp
  next
    case False
    have "0 \<le> indexOf (c # s) t \<longleftrightarrow> 0 \<le> indexOf s t"
      using False by (simp add: Let_def)
    also have "\<dots> \<longleftrightarrow> sublist t s" by (rule Cons.IH)
    also have "\<dots> \<longleftrightarrow> sublist t (c # s)"
      using False by (simp add: sublist_Cons_right)
    finally show ?thesis .
  qed
qed

section \<open>Properties of uniqBy\<close>

lemma baseUniq_key_not_seen: "e \<in> set (baseUniq f seen xs) \<Longrightarrow> f e \<notin> set seen"
proof (induction xs arbitrary: seen)
  case Nil
  then show ?case by simp
next
  case (Cons x xs)
  show ?case
  proof (cases "f x \<in> set seen")
    case True
    with Cons.prems have "e \<in> set (baseUniq f seen xs)" by simp
    then show ?thesis by (rule Cons.IH)
  next
    case False
    with Cons.prems have "e = x \<or> e \<in> set (baseUniq f (seen @ [f x]) xs)" by simp
    then show ?thesis
    proof
      assume "e = x"
      with False show ?thesis by simp
    next
      assume "e \<in> set (baseUniq f (seen @ [f x]) xs)"
      from Cons.IH [OF this] show ?thesis by simp
    qed
  qed
qed

lemma baseUniq_keys_fresh: "f ` set (baseUniq f seen xs) \<inter> set seen = {}"
  using baseUniq_key_not_seen [of _ f seen xs] by auto




lemma baseUniq_distinct: "distinct (map f (baseUniq f seen xs))"
proof (induction xs arbitrary: seen)
  case Nil
  show ?case by simp
next
  case (Cons x xs)
  have "f x \<notin> f ` set (baseUniq f (seen @ [f x]) xs)"
    using baseUniq_keys_fresh [of f "seen @ [f x]" xs] by auto
  with Cons.IH show ?case by simp
qed





lemma baseUniq_distinct_id:
  "distinct (map f xs) \<Longrightarrow> f ` set xs \<inter> set seen = {} \<Longrightarrow> baseUniq f seen xs = xs"
proof (induction xs arbitrary: seen)
  case Nil
  show ?case by simp
next
  case (Cons x xs)
  from Cons.prems have "f x \<notin> set seen" by auto
  moreover from Cons.prems have "baseUniq f (seen @ [f x]) xs = xs"
    by (intro Cons.IH) auto
  ultimately show ?case by simp
qed

lemma uniqBy_idem: "uniqBy f (uniqBy f xs) = uniqBy f xs"
  unfolding uniqBy_def [of f "baseUniq f [] xs"]
  by (simp add: uniqBy_def baseUniq_distinct_id baseUniq_distinct)

section \<open>Paging over a paged source\<close>

lemma pageRequests_Suc:
  "pageRequests qs sz j (Suc n) =
     Query qs (Some \<lparr>limit = sz, skip = j * sz\<rparr>) # pageRequests qs sz (Suc j) n"
  by (simp add: pageRequests_def upt_conv_Cons)

lemma pageResponseE:
  assumes "pageResponse h key qs prm es nxt"
  obtains r c where "h qs (Some prm) = Inr r" "dataAt r key = Some c"
    "edges c = Some es" "hasNextPage c = nxt"
  using assms by (auto simp: pageResponse_def split: sum.splits option.splits)

lemma concatEdges_Some:
  "edges c0 = Some es \<Longrightarrow> edges c1 = Some ms \<Longrightarrow>
   concatEdges (Some c0) (Some c1) =
     Some (if es \<noteq> [] \<and> ms \<noteq> [] then c0\<lparr>edges := Some (es @ ms)\<rparr> else c0)"
  by (simp add: concatEdges_def)

text \<open>
  On a paged source \<open>fetchPages\<close> returns: it asks for every page, and the edge list of
  its result is the concatenation of the pages up to the first empty one.
\<close>

lemma fetchPages_pagedSource:
  assumes "ps \<noteq> []" and "pagedSourceFrom h key qs sz j ps"
  shows "\<exists>c. fetchPages h key qs sz j \<lparr>limit = sz, skip = j * sz\<rparr> =
               Some (pageRequests qs sz j (length ps), Inr (Some c)) \<and>
             edges c = Some (concat (takeWhile (\<lambda>p. p \<noteq> []) ps)) \<and>
             hasNextPage c = (tl ps \<noteq> [])"
  using assms
proof (induction ps arbitrary: j)
  case Nil
  then show ?case by simp
next
  case (Cons p rest)
  from Cons.prems(2)
  have resp: "pageResponse h key qs \<lparr>limit = sz, skip = j * sz\<rparr> p (rest \<noteq> [])"
    and later: "pagedSourceFrom h key qs sz (Suc j) rest" by simp_all
  from resp obtain r c0 where r: "h qs (Some \<lparr>limit = sz, skip = j * sz\<rparr>) = Inr r"
    and c0: "dataAt r key = Some c0" "edges c0 = Some p" "hasNextPage c0 = (rest \<noteq> [])"
    by (rule pageResponseE)
  show ?case
  proof (cases "rest = []")
    case True
    have "fetchPages h key qs sz j \<lparr>limit = sz, skip = j * sz\<rparr> =
            Some ([Query qs (Some \<lparr>limit = sz, skip = j * sz\<rparr>)], Inr (Some c0))"
      by (subst fetchPages.simps) (simp add: r c0 True nextPage_def)
    with True c0 show ?thesis by (auto simp: pageRequests_def)
  next
    case False
    from Cons.IH [OF False later] obtain c1 where
      rec: "fetchPages h key qs sz (Suc j) \<lparr>limit = sz, skip = Suc j * sz\<rparr> =
              Some (pageRequests qs sz (Suc j) (length rest), Inr (Some c1))"
      and c1: "edges c1 = Some (concat (takeWhile (\<lambda>p. p \<noteq> []) rest))" by blast
    have step: "fetchPages h key qs sz j \<lparr>limit = sz, skip = j * sz\<rparr> =
            Some (pageRequests qs sz j (Suc (length rest)),
                  Inr (concatEdges (Some c0) (Some c1)))"
      using rec
      by (subst fetchPages.simps) (simp add: r c0 False nextPage_def pageRequests_Suc)
    define ms where "ms = concat (takeWhile (\<lambda>p. p \<noteq> []) rest)"
    define c where
      "c = (if p \<noteq> [] \<and> ms \<noteq> [] then c0\<lparr>edges := Some (p @ ms)\<rparr> else c0)"
    have cc: "concatEdges (Some c0) (Some c1) = Some c"
      unfolding c_def using c0(2) c1 [folded ms_def] by (rule concatEdges_Some)
    have ce: "edges c = Some (concat (takeWhile (\<lambda>p. p \<noteq> []) (p # rest)))"
      using c0(2) by (simp add: c_def ms_def)
    have ch: "hasNextPage c = hasNextPage c0"
      by (simp add: c_def)
    from step cc ce ch c0 False show ?thesis by simp
  qed
qed

lemma splitQuery_pagedSource:
  assumes "ps \<noteq> []" and "pagedSourceFrom h key qs (pageSizeOrDefault sz) 0 ps"
  shows "\<exists>c. splitQueryInSmallerBatches h key qs sz =
               Some (pageRequests qs (pageSizeOrDefault sz) 0 (length ps), Inr (Some c)) \<and>
             edges c = Some (concat (takeWhile (\<lambda>p. p \<noteq> []) ps)) \<and>
             hasNextPage c = (tl ps \<noteq> [])"
proof -
  from fetchPages_pagedSource [OF assms] obtain c where
    f: "fetchPages h key qs (pageSizeOrDefault sz) 0
          \<lparr>limit = pageSizeOrDefault sz, skip = 0\<rparr> =
          Some (pageRequests qs (pageSizeOrDefault sz) 0 (length ps), Inr (Some c))"
    and c: "edges c = Some (concat (takeWhile (\<lambda>p. p \<noteq> []) ps))"
      "hasNextPage c = (tl ps \<noteq> [])"
    by auto
  have "splitQueryInSmallerBatches h key qs sz =
          Some (pageRequests qs (pageSizeOrDefault sz) 0 (length ps), Inr (Some c))"
    using f by (simp add: splitQueryInSmallerBatches_def)
  with c show ?thesis by blast
qed

lemma takeWhile_stops_at:
  "k < length xs \<Longrightarrow> \<not> P (xs ! k) \<Longrightarrow> takeWhile P xs = takeWhile P (take k xs)"
proof (induction xs arbitrary: k)
  case Nil
  then show ?case by simp
next
  case (Cons x xs)
  then show ?case by (cases k) auto
qed

lemma simulatedSource_paged:
  assumes "0 < sz"
  shows "pagedSourceFrom (simulatedSource key sz (before @ ps)) key qs sz (length before) ps"
proof (induction ps arbitrary: before)
  case Nil
  show ?case by simp
next
  case (Cons p rest)
  have "pagedSourceFrom (simulatedSource key sz ((before @ [p]) @ rest)) key qs sz
          (length (before @ [p])) rest"
    by (rule Cons.IH)
  then have later: "pagedSourceFrom (simulatedSource key sz (before @ p # rest)) key qs sz
          (Suc (length before)) rest" by simp
  have "pageResponse (simulatedSource key sz (before @ p # rest)) key qs
          \<lparr>limit = sz, skip = length before * sz\<rparr> p (rest \<noteq> [])"
    using assms
    by (simp add: pageResponse_def simulatedSource_def dataAt_def objectGet_def Let_def)
  with later show ?case by simp
qed

lemma simulatedSource_single:
  "snd (singleQuery (simulatedSource key sz pages) key qs) =
     Inr (Some \<lparr>edges = Some (concat pages), hasNextPage = False\<rparr>)"
  by (simp add: singleQuery_def simulatedSource_def dataAt_def objectGet_def)

section \<open>The sequential runner\<close>

lemma indexOf_gt_minus_one_iff: "indexOf s t > - 1 \<longleftrightarrow> sublist t s"
proof -
  have "indexOf s t > - 1 \<longleftrightarrow> 0 \<le> indexOf s t" by arith
  then show ?thesis by (simp add: indexOf_found_iff_sublist)
qed

lemma hasPaginationMarkers_iff:
  "hasPaginationMarkers qs \<longleftrightarrow>
     sublist ''hasNextPage'' qs \<and> sublist ''$limit:'' qs \<and> sublist ''$skip:'' qs \<and>
     sublist ''limit: $limit'' qs \<and> sublist ''skip: $skip'' qs"
  unfolding hasPaginationMarkers_def indexOf_gt_minus_one_iff ..

lemma fetchPages_first_event:
  assumes "fetchPages h key qs sz cp prm = Some (evs, r)"
  shows "\<exists>rest. evs = Query qs (Some prm) # rest"
  using assms
  by (subst (asm) fetchPages.simps)
     (auto simp: Let_def split: sum.splits if_splits Option.bind_splits)

lemma splitQuery_first_event:
  assumes "splitQueryInSmallerBatches h key qs sz = Some (evs, r)"
  shows "\<exists>rest. evs = Query qs (Some \<lparr>limit = pageSizeOrDefault sz, skip = 0\<rparr>) # rest"
proof -
  from assms obtain evs1 r1 where
    f: "fetchPages h key qs (pageSizeOrDefault sz) 0 \<lparr>limit = pageSizeOrDefault sz, skip = 0\<rparr>
          = Some (evs1, r1)"
    and "evs = evs1 \<or> (\<exists>more. evs = evs1 @ more)"
    by (auto simp: splitQueryInSmallerBatches_def Let_def singleQuery_def
        split: Option.bind_splits sum.splits prod.splits)
  with fetchPages_first_event [OF f] show ?thesis by auto
qed

lemma runQueriesLoop_append:
  "runQueriesLoop h sz (xs @ ys) resp =
     (case runQueriesLoop h sz xs resp of
        None \<Rightarrow> None
      | Some (evs, Inl e) \<Rightarrow> Some (evs, Inl e)
      | Some (evs, Inr resp') \<Rightarrow>
          (case runQueriesLoop h sz ys resp' of
             None \<Rightarrow> None
           | Some (evs', res) \<Rightarrow> Some (evs @ evs', res)))"
proof (induction xs arbitrary: resp)
  case Nil
  show ?case by (simp split: option.splits prod.splits)
next
  case (Cons x xs)
  show ?case
    by (simp add: Cons.IH split: option.splits prod.splits sum.splits)
qed

lemma runQueriesLoop_events:
  assumes "runQueriesLoop h sz qo resp = Some (evs, res)"
  shows "\<exists>evss. evs = concat evss \<and> length evss \<le> length qo \<and>
           (isl res \<or> length evss = length qo) \<and>
           list_all2 (\<lambda>item itemEvs. \<exists>r. runItem h sz (fst item) (snd item) = Some (itemEvs, r))
             (take (length evss) qo) evss"
  using assms
proof (induction qo arbitrary: resp evs res)
  case Nil
  then show ?case by simp
next
  case (Cons item rest)
  from Cons.prems obtain e1 r1 where item: "runItem h sz (fst item) (snd item) = Some (e1, r1)"
    by (auto split: option.splits)
  show ?case
  proof (cases r1)
    case (Inl e)
    with Cons.prems item have "evs = e1" "res = Inl e" by auto
    with item show ?thesis by (intro exI [of _ "[e1]"]) auto
  next
    case (Inr v)
    with Cons.prems item obtain evs' where
      rec: "runQueriesLoop h sz rest (objectSet (fst item) v resp) = Some (evs', res)"
      and evs: "evs = e1 @ evs'"
      by (auto split: option.splits)
    from Cons.IH [OF rec] obtain evss where
      "evs' = concat evss" "length evss \<le> length rest"
      "isl res \<or> length evss = length rest"
      "list_all2 (\<lambda>item itemEvs. \<exists>r. runItem h sz (fst item) (snd item) = Some (itemEvs, r))
         (take (length evss) rest) evss" by blast
    with item evs show ?thesis by (intro exI [of _ "e1 # evss"]) auto
  qed
qed


lemma runItem_mode:
  assumes "runItem h sz key qs = Some (itemEvs, r)"
  shows "if hasPaginationMarkers qs
         then splitQueryInSmallerBatches h key qs sz = Some (itemEvs, r) \<and>
              (\<exists>rest. itemEvs = Query qs (Some \<lparr>limit = pageSizeOrDefault sz, skip = 0\<rparr>) # rest)
         else itemEvs = [Query qs None]"
proof (cases "hasPaginationMarkers qs")
  case True
  with assms have s: "splitQueryInSmallerBatches h key qs sz = Some (itemEvs, r)"
    by (simp add: runItem_def)
  with splitQuery_first_event [OF s] True show ?thesis by simp
next
  case False
  with assms show ?thesis by (auto simp: runItem_def singleQuery_def)
qed

lemma paged_markers: "hasPaginationMarkers pagedQueryString"
  by (simp add: hasPaginationMarkers_def pagedQueryString_def Let_def)

lemma plain_markers: "\<not> hasPaginationMarkers plainQueryString"
  by (simp add: hasPaginationMarkers_def plainQueryString_def Let_def)


lemma simulated_plain:
  "singleQuery (simulatedSource ''allSitePage'' 2 twoPages) ''allGhostPost'' plainQueryString =
     ([Query plainQueryString None], Inr None)"
  by (simp add: singleQuery_def simulatedSource_def dataAt_def objectGet_def)

lemma splitQuery_fallback:
  assumes "fetchPages h key qs (pageSizeOrDefault sz) 0
             \<lparr>limit = pageSizeOrDefault sz, skip = 0\<rparr> = Some (evs1, Inl e)"
  shows "splitQueryInSmallerBatches h key qs sz =
           Some (evs1 @ [Query qs None],
                 case h qs None of Inl e' \<Rightarrow> Inl e' | Inr r \<Rightarrow> Inr (dataAt r key))"
  using assms by (simp add: splitQueryInSmallerBatches_def singleQuery_def)

lemma runQuery_object_error:
  assumes "runQueriesSequentially h queryObject sz = Some (evs, Inl e)"
  shows "runQuery h (QueryObject queryObject) m ex sz = Some (evs, Inl e)"
  using assms by (simp add: runQuery_def fetchSources_def)

lemma rejectingPagination_paging:
  "fetchPages (rejectingPagination es) key qs n 0 \<lparr>limit = n, skip = 0\<rparr> =
     Some ([Query qs (Some \<lparr>limit = n, skip = 0\<rparr>)], Inl (Rejected ''Unknown argument limit''))"
  by (subst fetchPages.simps) (simp add: rejectingPagination_def)

lemma rejectingAll_paging:
  "fetchPages rejectingAll key qs n 0 \<lparr>limit = n, skip = 0\<rparr> =
     Some ([Query qs (Some \<lparr>limit = n, skip = 0\<rparr>)], Inl (Rejected ''connection refused''))"
  by (subst fetchPages.simps) (simp add: rejectingAll_def)

section \<open>The exclusion filter and the errors of runQuery\<close>

lemma nodeSlug_exampleNode:
  "sourceKey \<noteq> ''allMarkdownRemark'' \<Longrightarrow> sourceKey \<noteq> ''allMdx'' \<Longrightarrow>
   nodeSlug sourceKey (exampleNode s k) = Inr (replaceFirstOuterSlash s)"
  by (simp add: nodeSlug_def exampleNode_def truthyString_def)

lemma isExcludedBy_RouteString:
  "nodeSlug sourceKey n = Inr s \<Longrightarrow>
   isExcludedBy sourceKey n (RouteString r) = Inr (sublist (replaceFirstOuterSlash r) s)"
  by (simp add: isExcludedBy_def indexOf_found_iff_sublist)

lemma someE_reaches:
  "\<forall>r\<in>set pre. p r = Inr False \<Longrightarrow> someE p (pre @ r0 # post) =
     (case p r0 of Inl e \<Rightarrow> Inl e | Inr b \<Rightarrow> if b then Inr True else someE p post)"
  by (induction pre) auto

lemma someE_stops:
  "someE p pre = Inr True \<Longrightarrow> someE p (pre @ post) = Inr True"
  by (induction pre) (auto split: sum.splits if_splits)

lemma keepNode_reaches_error:
  assumes "\<forall>r\<in>set pre. isExcludedBy key n r = Inr False"
    and "isExcludedBy key n r0 = Inl e"
  shows "keepNode (pre @ r0 # post) key n = Inl e"
  using someE_reaches [OF assms(1), of r0 post] assms(2) by (simp add: keepNode_def)

lemma keepNode_excluded_earlier:
  assumes "someE (isExcludedBy key n) pre = Inr True"
  shows "keepNode (pre @ post) key n = Inr False"
  using someE_stops [OF assms, of post] by (simp add: keepNode_def)

lemma filterE_reaches_error:
  "\<forall>x\<in>set before. \<exists>b. p x = Inr b \<Longrightarrow> p n = Inl e \<Longrightarrow>
   filterE p (before @ n # after) = Inl e"
  by (induction before) auto

lemma removeExcluded_error:
  assumes "objectGet sources key = Some c" and "edges c = Some (before @ n # after)"
    and "\<forall>x\<in>set before. \<exists>b. keepNode ex key x = Inr b"
    and "keepNode ex key n = Inl e"
  shows "removeExcluded ex key sources = Inl e"
  using filterE_reaches_error [OF assms(3,4), of after] assms(1,2)
  by (simp add: removeExcluded_def)

lemma forEachSource_append:
  "forEachSource m ex (ks1 @ ks2) s =
     (case forEachSource m ex ks1 s of
        (evs, Inl e) \<Rightarrow> (evs, Inl e)
      | (evs, Inr s') \<Rightarrow>
          (case forEachSource m ex ks2 s' of (evs', res) \<Rightarrow> (evs @ evs', res)))"
  by (induction ks1 arbitrary: s) (auto split: prod.splits sum.splits)

lemma forEachSource_error_at:
  assumes "forEachSource m ex done sources = (evs1, Inr sources1)"
    and "processSource m ex key sources1 = (evs2, Inl e)"
  shows "forEachSource m ex (done @ key # todo) sources = (evs1 @ evs2, Inl e)"
  using assms by (simp add: forEachSource_append)

lemma runQuery_record_check_error:
  assumes "fetchSources h q sz = Some (evs0, Inr (Some sources))"
    and "map fst sources = done @ key # todo"
    and "forEachSource m ex done sources = (evs1, Inr sources1)"
    and "applySerializer m key sources1 = (evs2, Inr sources2)"
    and "objectGet sources2 key = Some c" and "edges c = Some (before @ n # after)"
    and "\<forall>x\<in>set before. \<exists>b. keepNode ex key x = Inr b"
    and "keepNode ex key n = Inl e"
  shows "runQuery h q m ex sz = Some (evs0 @ evs1 @ evs2, Inl e)"
proof -
  have "removeExcluded ex key sources2 = Inl e"
    using assms(5-8) by (rule removeExcluded_error)
  with assms(4) have "processSource m ex key sources1 = (evs2, Inl e)"
    by (simp add: processSource_def)
  from forEachSource_error_at [OF assms(3) this]
  have "forEachSource m ex (map fst sources) sources = (evs1 @ evs2, Inl e)"
    by (simp add: assms(2))
  with assms(1) show ?thesis by (simp add: runQuery_def)
qed


lemmas evalQuery =
  runQuery_def fetchSources_def staticSource_def processSource_def applySerializer_def
  serializerOf_def removeExcluded_def objectGet_def keepNode_def isExcludedBy_def
  nodeSlug_exampleNode replaceFirstOuterSlash_def ghostPosts_def Let_def

lemma runCustomQuery_error:
  assumes "query opts = Some q" and "truthyQuery (Some q)" and "mapping opts \<noteq> None"
    and "runQuery h q (mapping opts) (exclude opts) (splitQueryPageSize opts) = Some (evs, Inl e)"
  shows "runCustomQuery h opts =
           Some (evs, Inl (ErrorObj (''Something went wrong running custom query: ''
                                      @ errorToString e)))"
  using assms by (simp add: runCustomQuery_def)

lemma runDefaultQuery_error:
  assumes "\<not> (skipDefaultQuery opts \<and> truthyQuery (query opts))"
    and "runQuery h (QueryString DQ) None (exclude opts) None = Some (evs, Inl e)"
  shows "runDefaultQuery h DQ opts =
           Some (evs, Inl (ErrorObj (''Something went wrong running default query: ''
                                      @ errorToString e)))"
  using assms by (simp add: runDefaultQuery_def)

lemma onPostBuildQueries_default_error:
  assumes "runDefaultQuery h DQ opts = Some (evs, Inl e)"
  shows "onPostBuildQueries h DQ opts = Some (evs, Inl e)"
  using assms by (simp add: onPostBuildQueries_def)

lemma onPostBuildQueries_custom_error:
  assumes "runDefaultQuery h DQ opts = Some (evsD, Inr d)"
    and "runCustomQuery h opts = Some (evs, Inl e)"
  shows "onPostBuildQueries h DQ opts = Some (evsD @ evs, Inl e)"
  using assms by (simp add: onPostBuildQueries_def)

section \<open>Custom serializers\<close>

lemma serializerCalls_append:
  "serializerCalls key (evs @ evs') = serializerCalls key evs @ serializerCalls key evs'"
  by (induction key evs rule: serializerCalls.induct) auto

lemma objectGet_objectSet:
  "objectGet (objectSet k v s) k' = (if k' = k then v else objectGet s k')"
  by (induction s) (auto simp: objectGet_def)

lemma objectSet_twice: "objectSet k v (objectSet k v' s) = objectSet k v s"
  by (induction s) auto

lemma applySerializer_other:
  assumes "key' \<noteq> key" and "applySerializer m key' s = (evs, r)"
  shows "serializerCalls key evs = []" and "r = Inr s' \<Longrightarrow> objectGet s' key = objectGet s key"
  using assms
  by (auto simp: applySerializer_def objectGet_objectSet
      split: option.splits sum.splits)

lemma removeExcluded_other:
  assumes "key' \<noteq> key" and "removeExcluded ex key' s = Inr s'"
  shows "objectGet s' key = objectGet s key"
  using assms
  by (auto simp: removeExcluded_def objectGet_objectSet
      split: option.splits sum.splits if_splits)

lemma processSource_other:
  assumes "key' \<noteq> key" and "processSource m ex key' s = (evs, r)"
  shows "serializerCalls key evs = []" and "r = Inr s' \<Longrightarrow> objectGet s' key = objectGet s key"
proof -
  obtain evs0 r0 where a: "applySerializer m key' s = (evs0, r0)" by (cases "applySerializer m key' s")
  show "serializerCalls key evs = []"
    using assms(2) a applySerializer_other(1) [OF assms(1) a]
    by (auto simp: processSource_def split: sum.splits)
  show "objectGet s' key = objectGet s key" if "r = Inr s'"
  proof -
    from assms(2) a that obtain s0 where r0: "r0 = Inr s0"
      and rem: "removeExcluded ex key' s0 = Inr s'"
      by (auto simp: processSource_def split: sum.splits)
    from removeExcluded_other [OF assms(1) rem] applySerializer_other(2) [OF assms(1) a r0]
    show ?thesis by simp
  qed
qed

lemma forEachSource_other:
  assumes "key \<notin> set ks" and "forEachSource m ex ks s = (evs, r)"
  shows "serializerCalls key evs = [] \<and> (\<forall>s'. r = Inr s' \<longrightarrow> objectGet s' key = objectGet s key)"
  using assms
proof (induction ks arbitrary: s evs r)
  case Nil
  then show ?case by auto
next
  case (Cons k ks)
  from Cons.prems(1) have ne: "k \<noteq> key" and notin: "key \<notin> set ks" by auto
  obtain evs1 r1 where p: "processSource m ex k s = (evs1, r1)"
    by (cases "processSource m ex k s")
  note other = processSource_other [OF ne p]
  show ?case
  proof (cases r1)
    case (Inl e)
    with Cons.prems(2) p have "evs = evs1" "r = Inl e" by auto
    with other(1) show ?thesis by simp
  next
    case (Inr s1)
    obtain evs2 r2 where rest: "forEachSource m ex ks s1 = (evs2, r2)"
      by (cases "forEachSource m ex ks s1")
    with Cons.prems(2) p Inr have "evs = evs1 @ evs2" "r = r2" by auto
    with Cons.IH [OF notin rest] other(1) other(2) [OF Inr]
    show ?thesis by (simp add: serializerCalls_append)
  qed
qed

lemma processSource_serializer:
  assumes "serializerOf m key = Some f" and "objectGet s key = Some c" and "edges c = Some es"
  shows "processSource m ex key s =
           ([Serializer key es],
            case f es of
              Inl e \<Rightarrow> Inl e
            | Inr None \<Rightarrow> Inl (ErrorObj ''Custom sitemap serializer must return an array'')
            | Inr (Some serializedEdges) \<Rightarrow>
                removeExcluded ex key
                  (objectSet key (Some (c\<lparr>edges := Some serializedEdges\<rparr>)) s))"
  using assms
  by (simp add: processSource_def applySerializer_def split: sum.splits option.splits)


lemma runQuery_forEach:
  assumes "fetchSources h q sz = Some (evs0, Inr (Some sources))"
    and "forEachSource m ex (map fst sources) sources = (evs, res)"
  shows "runQuery h q m ex sz = Some (evs0 @ evs, res)"
  using assms by (simp add: runQuery_def)

text \<open>
  A source with a serializer and an edge array, reached by the walk through the sources.
\<close>

lemma serializer_called_once_on_raw_edges:
  assumes keys: "map fst sources = done @ key # todo" and dist: "distinct (map fst sources)"
    and before: "forEachSource m ex done sources = (evs1, Inr sources1)"
    and ser: "serializerOf m key = Some f"
    and src: "objectGet sources key = Some c" and es: "edges c = Some es"
  shows "serializerCalls key evs1 = [] \<and>
         processSource m ex key sources1 =
           ([Serializer key es],
            case f es of
              Inl e \<Rightarrow> Inl e
            | Inr None \<Rightarrow> Inl (ErrorObj ''Custom sitemap serializer must return an array'')
            | Inr (Some serializedEdges) \<Rightarrow>
                removeExcluded ex key
                  (objectSet key (Some (c\<lparr>edges := Some serializedEdges\<rparr>)) sources1)) \<and>
         (\<forall>evs res. forEachSource m ex (map fst sources) sources = (evs, res) \<longrightarrow>
            serializerCalls key evs = [es]) \<and>
         (f es = Inr None \<longrightarrow>
            forEachSource m ex (map fst sources) sources =
              (evs1 @ [Serializer key es],
               Inl (ErrorObj ''Custom sitemap serializer must return an array'')) \<and>
            (\<forall>h q sz evs0. fetchSources h q sz = Some (evs0, Inr (Some sources)) \<longrightarrow>
               runQuery h q m ex sz =
                 Some (evs0 @ evs1 @ [Serializer key es],
                       Inl (ErrorObj ''Custom sitemap serializer must return an array''))))"
proof -
  from keys dist have notdone: "key \<notin> set done" and nottodo: "key \<notin> set todo" by auto
  from forEachSource_other [OF notdone before]
  have calls1: "serializerCalls key evs1 = []" and same: "objectGet sources1 key = Some c"
    using src by auto
  note step = processSource_serializer [OF ser same es, of ex]
  have once: "serializerCalls key evs = [es]"
    if run: "forEachSource m ex (map fst sources) sources = (evs, res)" for evs res
  proof -
    obtain r where p: "processSource m ex key sources1 = ([Serializer key es], r)"
      using step by simp
    show ?thesis
    proof (cases r)
      case (Inl e)
      with run before p have "evs = evs1 @ [Serializer key es]"
        by (simp add: keys forEachSource_append)
      with calls1 show ?thesis by (simp add: serializerCalls_append)
    next
      case (Inr s2)
      obtain evs3 r3 where rest: "forEachSource m ex todo s2 = (evs3, r3)"
        by (cases "forEachSource m ex todo s2")
      with run before p Inr have "evs = evs1 @ [Serializer key es] @ evs3"
        by (simp add: keys forEachSource_append)
      with calls1 forEachSource_other [OF nottodo rest] show ?thesis
        by (simp add: serializerCalls_append)
    qed
  qed
  have fatal: "forEachSource m ex (map fst sources) sources =
              (evs1 @ [Serializer key es],
               Inl (ErrorObj ''Custom sitemap serializer must return an array''))"
    if "f es = Inr None"
    using before step that by (simp add: keys forEachSource_append)
  have fatal': "runQuery h q m ex sz =
                 Some (evs0 @ evs1 @ [Serializer key es],
                       Inl (ErrorObj ''Custom sitemap serializer must return an array''))"
    if "f es = Inr None" "fetchSources h q sz = Some (evs0, Inr (Some sources))" for h q sz evs0
    using runQuery_forEach [OF that(2) fatal [OF that(1)]] by simp
  from calls1 step once fatal fatal' show ?thesis by blast
qed


lemma processSource_no_mapping: "processSource None ex key s = ([], removeExcluded ex key s)"
  by (simp add: processSource_def applySerializer_def serializerOf_def)

lemma forEachSource_no_mapping:
  "forEachSource None ex ks s = (evs, r) \<Longrightarrow> evs = []"
proof (induction ks arbitrary: s evs r)
  case Nil
  then show ?case by simp
next
  case (Cons k ks)
  show ?case
  proof (cases "removeExcluded ex k s")
    case (Inl e)
    with Cons.prems show ?thesis by (simp add: processSource_no_mapping)
  next
    case (Inr s')
    obtain evs' r' where rest: "forEachSource None ex ks s' = (evs', r')"
      by (cases "forEachSource None ex ks s'")
    from Cons.IH [OF rest] Cons.prems Inr rest show ?thesis
      by (simp add: processSource_no_mapping)
  qed
qed

lemma runDefaultQuery_no_serializer:
  assumes "runDefaultQuery h DQ opts = Some (evs, r)"
  shows "serializerCalls k evs = []"
proof (cases "skipDefaultQuery opts \<and> truthyQuery (query opts)")
  case True
  with assms show ?thesis by (simp add: runDefaultQuery_def)
next
  case False
  with assms obtain r' where run: "runQuery h (QueryString DQ) None (exclude opts) None = Some (evs, r')"
    by (auto simp: runDefaultQuery_def split: option.splits sum.splits)
  show ?thesis
  proof (cases "h DQ None")
    case (Inl e)
    with run show ?thesis by (auto simp: runQuery_def fetchSources_def)
  next
    case (Inr d)
    show ?thesis
    proof (cases d)
      case None
      with run Inr show ?thesis by (auto simp: runQuery_def fetchSources_def)
    next
      case (Some sources)
      obtain evs' res where fe: "forEachSource None (exclude opts) (map fst sources) sources = (evs', res)"
        by (cases "forEachSource None (exclude opts) (map fst sources) sources")
      from forEachSource_no_mapping [OF fe] fe run Inr Some show ?thesis
        by (auto simp: runQuery_def fetchSources_def)
    qed
  qed
qed

lemma processSource_no_edges:
  assumes "\<forall>c. objectGet s key = Some c \<longrightarrow> edges c = None"
  shows "processSource m ex key s = ([], Inr s)"
  using assms
  by (auto simp: processSource_def applySerializer_def removeExcluded_def
      split: option.splits)

lemma forEachSource_no_edges:
  assumes "distinct ks" and "\<forall>c. objectGet s key = Some c \<longrightarrow> edges c = None"
    and "forEachSource m ex ks s = (evs, r)"
  shows "serializerCalls key evs = []"
  using assms
proof (induction ks arbitrary: s evs r)
  case Nil
  then show ?case by simp
next
  case (Cons k ks)
  from Cons.prems(1) have dist: "distinct ks" and notin: "k \<notin> set ks" by auto
  show ?case
  proof (cases "k = key")
    case True
    have p: "processSource m ex key s = ([], Inr s)"
      using Cons.prems(2) by (rule processSource_no_edges)
    obtain evs' r' where rest: "forEachSource m ex ks s = (evs', r')"
      by (cases "forEachSource m ex ks s")
    from notin True have "key \<notin> set ks" by simp
    from forEachSource_other [OF this rest] rest p Cons.prems(3) True
    show ?thesis by auto
  next
    case False
    obtain evs1 r1 where p: "processSource m ex k s = (evs1, r1)"
      by (cases "processSource m ex k s")
    note other = processSource_other [OF False p]
    show ?thesis
    proof (cases r1)
      case (Inl e)
      with Cons.prems(3) p have "evs = evs1" by auto
      with other(1) show ?thesis by simp
    next
      case (Inr s1)
      obtain evs2 r2 where rest: "forEachSource m ex ks s1 = (evs2, r2)"
        by (cases "forEachSource m ex ks s1")
      have "\<forall>c. objectGet s1 key = Some c \<longrightarrow> edges c = None"
        using other(2) [OF Inr] Cons.prems(2) by simp
      from Cons.IH [OF dist this rest] have "serializerCalls key evs2 = []" .
      moreover from Cons.prems(3) p Inr rest have "evs = evs1 @ evs2" by auto
      ultimately show ?thesis using other(1) by (simp add: serializerCalls_append)
    qed
  qed
qed

section \<open>serialize and the sitemap manager\<close>




lemma fed_map_Pair: "fed name (map (\<lambda>n. (k, n)) xs) = (if k = name then xs else [])"
  by (induction xs) (auto simp: fed_def)













section \<open>Claims\<close>




text \<open>
  C2. A paged source serves the pages \<open>pages\<close> (at least one, none of them empty), each
  page but the last reporting a next page, and a single request without parameters
  returns the same records in the same order. Then the paged run returns, it has asked
  for every page once and in order, and the edge list of its result is the concatenation
  of the pages, which is the edge list of the single unpaginated request.
\<close>

theorem C2_paged_result_equals_single_request:
  assumes "pages \<noteq> []" and "[] \<notin> set pages"
    and "pagedSourceFrom h key qs (pageSizeOrDefault sz) 0 pages"
    and "snd (singleQuery h key qs) = Inr (Some c0)" and "edges c0 = Some (concat pages)"
  shows "\<exists>c. splitQueryInSmallerBatches h key qs sz =
               Some (pageRequests qs (pageSizeOrDefault sz) 0 (length pages), Inr (Some c)) \<and>
             edges c = Some (concat pages) \<and> edges c = edges c0"
proof -
  have "takeWhile (\<lambda>p. p \<noteq> []) pages = pages"
    using assms(2) by auto
  with splitQuery_pagedSource [OF assms(1,3)] assms(5) show ?thesis by auto
qed

text \<open>
  The example of the specification: three pages of 100 records with page size 100 give
  the 300 records of the single request.
\<close>

theorem C2_witness_three_pages_of_100:
  "\<exists>c. splitQueryInSmallerBatches (simulatedSource ''allSitePage'' 100 threePages)
          ''allSitePage'' ''q'' (Some 100) =
          Some (pageRequests ''q'' 100 0 3, Inr (Some c)) \<and>
        edges c = Some (concat threePages) \<and>
        edges c = edges \<lparr>edges = Some (concat threePages), hasNextPage = False\<rparr>"
proof -
  have ne: "threePages \<noteq> []" and full: "[] \<notin> set threePages"
    by (simp_all add: threePages_def)
  have paged: "pagedSourceFrom (simulatedSource ''allSitePage'' 100 threePages)
      ''allSitePage'' ''q'' (pageSizeOrDefault (Some 100)) 0 threePages"
    using simulatedSource_paged [of 100 "''allSitePage''" "[]" threePages "''q''"]
    by (simp add: pageSizeOrDefault_def)
  have all: "edges \<lparr>edges = Some (concat threePages), hasNextPage = False\<rparr> =
      Some (concat threePages)"
    by simp
  have len: "length threePages = 3" and sz: "pageSizeOrDefault (Some 100) = 100"
    by (simp_all add: threePages_def pageSizeOrDefault_def)
  show ?thesis
    using C2_paged_result_equals_single_request
      [OF ne full paged simulatedSource_single all]
    unfolding len sz .
qed

text \<open>
  C3. Whenever \<open>runQueriesSequentially\<close> returns, with a result or with an error, its
  requests are those of the queries of the query object, query by query and in the order
  of the object, up to the query that failed. For each of these queries: if its query
  string textually contains \<open>hasNextPage\<close>, \<open>$limit:\<close>, \<open>$skip:\<close>, \<open>limit: $limit\<close> and
  \<open>skip: $skip\<close>, its requests are those of \<open>splitQueryInSmallerBatches\<close>, the first of
  which asks for \<open>limit = pageSize\<close>, \<open>skip = 0\<close>; otherwise, and only then, the query is
  one request without parameters. The two cases differ in their first request, so a
  query runs in paged mode if and only if it has all markers.
\<close>

theorem C3_paged_mode_iff_pagination_markers:
  assumes "runQueriesSequentially h queryObject sz = Some (evs, res)"
  shows "\<exists>evss. evs = concat evss \<and> length evss \<le> length queryObject \<and>
           (isl res \<or> length evss = length queryObject) \<and>
           list_all2
             (\<lambda>item itemEvs.
                if sublist ''hasNextPage'' (snd item) \<and> sublist ''$limit:'' (snd item) \<and>
                   sublist ''$skip:'' (snd item) \<and> sublist ''limit: $limit'' (snd item) \<and>
                   sublist ''skip: $skip'' (snd item)
                then (\<exists>r. splitQueryInSmallerBatches h (fst item) (snd item) sz =
                            Some (itemEvs, r)) \<and>
                     (\<exists>rest. itemEvs =
                        Query (snd item) (Some \<lparr>limit = pageSizeOrDefault sz, skip = 0\<rparr>) # rest)
                else itemEvs = [Query (snd item) None])
             (take (length evss) queryObject) evss"
proof -
  from assms obtain res' where loop: "runQueriesLoop h sz queryObject [] = Some (evs, res')"
    and isl: "isl res = isl res'"
    by (auto simp: runQueriesSequentially_def split: option.splits sum.splits prod.splits)
  from runQueriesLoop_events [OF loop] obtain evss where
    evss: "evs = concat evss" "length evss \<le> length queryObject"
      "isl res' \<or> length evss = length queryObject"
    and all: "list_all2 (\<lambda>item itemEvs. \<exists>r. runItem h sz (fst item) (snd item) = Some (itemEvs, r))
             (take (length evss) queryObject) evss" by blast
  have "list_all2
          (\<lambda>item itemEvs.
             if sublist ''hasNextPage'' (snd item) \<and> sublist ''$limit:'' (snd item) \<and>
                sublist ''$skip:'' (snd item) \<and> sublist ''limit: $limit'' (snd item) \<and>
                sublist ''skip: $skip'' (snd item)
             then (\<exists>r. splitQueryInSmallerBatches h (fst item) (snd item) sz =
                         Some (itemEvs, r)) \<and>
                  (\<exists>rest. itemEvs =
                     Query (snd item) (Some \<lparr>limit = pageSizeOrDefault sz, skip = 0\<rparr>) # rest)
             else itemEvs = [Query (snd item) None])
          (take (length evss) queryObject) evss"
    using all
  proof (rule list_all2_mono)
    fix item itemEvs
    assume "\<exists>r. runItem h sz (fst item) (snd item) = Some (itemEvs, r)"
    then obtain r where "runItem h sz (fst item) (snd item) = Some (itemEvs, r)" ..
    from runItem_mode [OF this]
    show "if sublist ''hasNextPage'' (snd item) \<and> sublist ''$limit:'' (snd item) \<and>
             sublist ''$skip:'' (snd item) \<and> sublist ''limit: $limit'' (snd item) \<and>
             sublist ''skip: $skip'' (snd item)
          then (\<exists>r. splitQueryInSmallerBatches h (fst item) (snd item) sz =
                      Some (itemEvs, r)) \<and>
               (\<exists>rest. itemEvs =
                  Query (snd item) (Some \<lparr>limit = pageSizeOrDefault sz, skip = 0\<rparr>) # rest)
          else itemEvs = [Query (snd item) None]"
      unfolding hasPaginationMarkers_iff by (auto split: if_splits)
  qed
  with evss isl show ?thesis by blast
qed

theorem C3_witness_paged_and_plain_query:
  "\<exists>evs res evss.
     runQueriesSequentially (simulatedSource ''allSitePage'' 2 twoPages)
       [(''allSitePage'', pagedQueryString), (''allGhostPost'', plainQueryString)] (Some 2) =
       Some (evs, res) \<and>
     evs = concat evss \<and> length evss = 2 \<and>
     list_all2
       (\<lambda>item itemEvs.
          if sublist ''hasNextPage'' (snd item) \<and> sublist ''$limit:'' (snd item) \<and>
             sublist ''$skip:'' (snd item) \<and> sublist ''limit: $limit'' (snd item) \<and>
             sublist ''skip: $skip'' (snd item)
          then (\<exists>r. splitQueryInSmallerBatches (simulatedSource ''allSitePage'' 2 twoPages)
                       (fst item) (snd item) (Some 2) = Some (itemEvs, r)) \<and>
               (\<exists>rest. itemEvs =
                  Query (snd item) (Some \<lparr>limit = pageSizeOrDefault (Some 2), skip = 0\<rparr>) # rest)
          else itemEvs = [Query (snd item) None])
       (take (length evss)
          [(''allSitePage'', pagedQueryString), (''allGhostPost'', plainQueryString)]) evss"
proof -
  let ?h = "simulatedSource ''allSitePage'' 2 twoPages :: nat handler"
  let ?qo = "[(''allSitePage'', pagedQueryString), (''allGhostPost'', plainQueryString)]"
  have "pagedSourceFrom ?h ''allSitePage'' pagedQueryString (pageSizeOrDefault (Some 2)) 0 twoPages"
    using simulatedSource_paged [of 2 "''allSitePage''" "[]" twoPages pagedQueryString]
    by (simp add: pageSizeOrDefault_def)
  moreover have "twoPages \<noteq> []" by (simp add: twoPages_def)
  ultimately obtain c where
    split: "splitQueryInSmallerBatches ?h ''allSitePage'' pagedQueryString (Some 2) =
       Some (pageRequests pagedQueryString (pageSizeOrDefault (Some 2)) 0 (length twoPages),
             Inr (Some c))"
    using splitQuery_pagedSource [of twoPages ?h "''allSitePage''" pagedQueryString "Some 2"]
    by blast
  define evs where "evs = pageRequests pagedQueryString (pageSizeOrDefault (Some 2)) 0
      (length twoPages) @ [Query plainQueryString None :: nat event]"
  have run: "runQueriesSequentially ?h ?qo (Some 2) =
      Some (evs, Inr [(''allSitePage'', Some c), (''allGhostPost'', None)])"
    by (simp add: runQueriesSequentially_def runItem_def paged_markers plain_markers split
        simulated_plain evs_def)
  from C3_paged_mode_iff_pagination_markers [OF run] obtain evss where
    "evs = concat evss" "length evss = 2"
    "list_all2
       (\<lambda>item itemEvs.
          if sublist ''hasNextPage'' (snd item) \<and> sublist ''$limit:'' (snd item) \<and>
             sublist ''$skip:'' (snd item) \<and> sublist ''limit: $limit'' (snd item) \<and>
             sublist ''skip: $skip'' (snd item)
          then (\<exists>r. splitQueryInSmallerBatches ?h (fst item) (snd item) (Some 2) =
                       Some (itemEvs, r)) \<and>
               (\<exists>rest. itemEvs =
                  Query (snd item) (Some \<lparr>limit = pageSizeOrDefault (Some 2), skip = 0\<rparr>) # rest)
          else itemEvs = [Query (snd item) None])
       (take (length evss) ?qo) evss"
    by auto
  with run show ?thesis by blast
qed


text \<open>
  C4. A query with the pagination markers is reached by the loop (the queries \<open>before\<close>
  it have run without an error) and \<open>fetchPages\<close> raises an error \<open>e\<close>. Then
  \<open>splitQueryInSmallerBatches\<close> issues exactly one more request, without parameters, and
  its outcome is the outcome of that request. If the request resolves, its value is
  stored under the key of the query and the loop goes on with the queries \<open>after\<close> it as
  it does otherwise. If the request is rejected with \<open>e'\<close>, no later query runs and the
  error leaves \<open>runQueriesSequentially\<close> as \<open>new Error(e')\<close>, and \<open>runQuery\<close> with it.
\<close>

theorem C4_paging_error_falls_back_to_single_request:
  assumes markers: "hasPaginationMarkers qs"
    and before: "runQueriesLoop h sz before [] = Some (evs0, Inr resp0)"
    and paging: "fetchPages h key qs (pageSizeOrDefault sz) 0
                   \<lparr>limit = pageSizeOrDefault sz, skip = 0\<rparr> = Some (evs1, Inl e)"
  shows "splitQueryInSmallerBatches h key qs sz =
           Some (evs1 @ [Query qs None],
                 case h qs None of Inl e' \<Rightarrow> Inl e' | Inr r \<Rightarrow> Inr (dataAt r key)) \<and>
         (\<forall>r. h qs None = Inr r \<longrightarrow>
            runQueriesSequentially h (before @ (key, qs) # after) sz =
              (case runQueriesLoop h sz after (objectSet key (dataAt r key) resp0) of
                 None \<Rightarrow> None
               | Some (evs2, Inl e2) \<Rightarrow>
                   Some (evs0 @ evs1 @ Query qs None # evs2, Inl (ErrorObj (errorToString e2)))
               | Some (evs2, Inr responses) \<Rightarrow>
                   Some (evs0 @ evs1 @ Query qs None # evs2, Inr responses))) \<and>
         (\<forall>e'. h qs None = Inl e' \<longrightarrow>
            runQueriesSequentially h (before @ (key, qs) # after) sz =
              Some (evs0 @ evs1 @ [Query qs None], Inl (ErrorObj (errorToString e'))) \<and>
            runQuery h (QueryObject (before @ (key, qs) # after)) m ex sz =
              Some (evs0 @ evs1 @ [Query qs None], Inl (ErrorObj (errorToString e'))))"
proof (intro conjI allI impI)
  note fb = splitQuery_fallback [OF paging]
  show "splitQueryInSmallerBatches h key qs sz =
           Some (evs1 @ [Query qs None],
                 case h qs None of Inl e' \<Rightarrow> Inl e' | Inr r \<Rightarrow> Inr (dataAt r key))"
    by (rule fb)
  have item: "runItem h sz key qs =
           Some (evs1 @ [Query qs None],
                 case h qs None of Inl e' \<Rightarrow> Inl e' | Inr r \<Rightarrow> Inr (dataAt r key))"
    using markers fb by (simp add: runItem_def)
  {
    fix r assume r: "h qs None = Inr r"
    show "runQueriesSequentially h (before @ (key, qs) # after) sz =
              (case runQueriesLoop h sz after (objectSet key (dataAt r key) resp0) of
                 None \<Rightarrow> None
               | Some (evs2, Inl e2) \<Rightarrow>
                   Some (evs0 @ evs1 @ Query qs None # evs2, Inl (ErrorObj (errorToString e2)))
               | Some (evs2, Inr responses) \<Rightarrow>
                   Some (evs0 @ evs1 @ Query qs None # evs2, Inr responses))"
      by (simp add: runQueriesSequentially_def runQueriesLoop_append before item r
          split: option.splits sum.splits prod.splits)
  }
  {
    fix e' assume e': "h qs None = Inl e'"
    show seq: "runQueriesSequentially h (before @ (key, qs) # after) sz =
              Some (evs0 @ evs1 @ [Query qs None], Inl (ErrorObj (errorToString e')))"
      by (simp add: runQueriesSequentially_def runQueriesLoop_append before item e')
    show "runQuery h (QueryObject (before @ (key, qs) # after)) m ex sz =
              Some (evs0 @ evs1 @ [Query qs None], Inl (ErrorObj (errorToString e')))"
      by (rule runQuery_object_error [OF seq])
  }
qed

text \<open>
  A capability that rejects pagination parameters: one paged request, one request
  without parameters, whose value is used. A capability that rejects everything: the
  same two requests, and the run ends with the error.
\<close>

theorem C4_witness_fallback_and_fatal:
  "splitQueryInSmallerBatches (rejectingPagination [exampleNode ''a'' 0]) ''allSitePage''
     pagedQueryString None =
     Some ([Query pagedQueryString (Some \<lparr>limit = 100, skip = 0\<rparr>),
            Query pagedQueryString None],
           Inr (Some \<lparr>edges = Some [exampleNode ''a'' 0], hasNextPage = False\<rparr>)) \<and>
   runQueriesSequentially rejectingAll [(''allSitePage'', pagedQueryString)] None =
     Some ([Query pagedQueryString (Some \<lparr>limit = 100, skip = 0\<rparr>),
            Query pagedQueryString None],
           Inl (ErrorObj ''connection refused''))"
proof -
  have sz: "pageSizeOrDefault None = 100" by (simp add: pageSizeOrDefault_def)
  have start: "runQueriesLoop h None [] [] = Some ([], Inr [])" for h :: "nat handler"
    by simp
  have ok: "rejectingPagination [exampleNode ''a'' 0] pagedQueryString None =
      Inr (Some [(''allSitePage'', Some \<lparr>edges = Some [exampleNode ''a'' 0], hasNextPage = False\<rparr>)])"
    by (simp add: rejectingPagination_def)
  have bad: "rejectingAll pagedQueryString None = Inl (Rejected ''connection refused'')"
    by (simp add: rejectingAll_def)
  have paging1: "fetchPages (rejectingPagination [exampleNode ''a'' 0]) ''allSitePage''
      pagedQueryString (pageSizeOrDefault None) 0
      \<lparr>limit = pageSizeOrDefault None, skip = 0\<rparr> =
      Some ([Query pagedQueryString (Some \<lparr>limit = 100, skip = 0\<rparr>)],
            Inl (Rejected ''Unknown argument limit''))"
    unfolding sz by (rule rejectingPagination_paging)
  have paging2: "fetchPages rejectingAll ''allSitePage''
      pagedQueryString (pageSizeOrDefault None) 0
      \<lparr>limit = pageSizeOrDefault None, skip = 0\<rparr> =
      Some ([Query pagedQueryString (Some \<lparr>limit = 100, skip = 0\<rparr>)],
            Inl (Rejected ''connection refused''))"
    unfolding sz by (rule rejectingAll_paging)
  from C4_paging_error_falls_back_to_single_request [where after = "[]", OF paged_markers start paging1]
  have "splitQueryInSmallerBatches (rejectingPagination [exampleNode ''a'' 0]) ''allSitePage''
     pagedQueryString None =
     Some ([Query pagedQueryString (Some \<lparr>limit = 100, skip = 0\<rparr>),
            Query pagedQueryString None],
           Inr (Some \<lparr>edges = Some [exampleNode ''a'' 0], hasNextPage = False\<rparr>))"
    by (simp add: ok dataAt_def objectGet_def)
  moreover
  from C4_paging_error_falls_back_to_single_request [where after = "[]", OF paged_markers start paging2]
  have "runQueriesSequentially rejectingAll [(''allSitePage'', pagedQueryString)] None =
     Some ([Query pagedQueryString (Some \<lparr>limit = 100, skip = 0\<rparr>),
            Query pagedQueryString None],
           Inl (ErrorObj ''connection refused''))"
    by (simp add: bad)
  ultimately show ?thesis ..
qed

text \<open>
  C5. The claim: a record is excluded by a literal rule if and only if its slug, with
  leading and trailing slashes stripped, contains the rule, stripped likewise. The source
  replaces the first match of \<open>/^\/|\/$/\<close> only. For the slug \<open>/blog\<close> and the rule
  \<open>/blog/\<close> the source compares \<open>blog\<close> with \<open>blog/\<close> and keeps the record, where the
  claim compares \<open>blog\<close> with \<open>blog\<close> and excludes it.
\<close>

theorem C5_literal_rule_first_outer_slash_only:
  "isExcludedBy ''allGhostPost'' (exampleNode ''/blog'' 0) (RouteString ''/blog/'') = Inr False \<and>
   keepNode [RouteString ''/blog/''] ''allGhostPost'' (exampleNode ''/blog'' 0) = Inr True \<and>
   sublist (stripOuterSlashes ''/blog/'') (stripOuterSlashes ''/blog'')"
proof -
  have slug: "nodeSlug ''allGhostPost'' (exampleNode ''/blog'' 0) = Inr ''blog''"
    by (simp add: nodeSlug_exampleNode replaceFirstOuterSlash_def)
  have rule: "replaceFirstOuterSlash ''/blog/'' = ''blog/''"
    by (simp add: replaceFirstOuterSlash_def)
  have "indexOf ''blog'' ''blog/'' = - 1" by (simp add: Let_def)
  then have ex: "isExcludedBy ''allGhostPost'' (exampleNode ''/blog'' 0) (RouteString ''/blog/'')
      = Inr False"
    by (simp add: isExcludedBy_def slug rule)
  then have keep: "keepNode [RouteString ''/blog/''] ''allGhostPost'' (exampleNode ''/blog'' 0)
      = Inr True"
    by (simp add: keepNode_def)
  have "stripOuterSlashes ''/blog/'' = ''blog''" "stripOuterSlashes ''/blog'' = ''blog''"
    by (simp_all add: stripOuterSlashes_def)
  then have "sublist (stripOuterSlashes ''/blog/'') (stripOuterSlashes ''/blog'')" by simp
  with ex keep show ?thesis by simp
qed


text \<open>
  C6. The claim, that an invalid regular expression in \<open>exclude\<close> raises a fatal error
  before any record is processed, fails: the expression is checked inside the exclusion
  check of a record, when that check reaches the rule. Here the only record is excluded
  by the rule before the invalid one, and \<open>runQuery\<close> returns without an error.
\<close>

theorem C6_counterexample_invalid_regexp_not_reached:
  "runQuery (staticSource (ghostPosts [exampleNode ''a'' 0])) (QueryString plainQueryString) None
     [RouteString ''a'', RouteObject False neverMatches] None =
     Some ([Query plainQueryString None], Inr (ghostPosts []))"
  by (simp add: evalQuery)

text \<open>
  C6, amended. The queries have run, the sources before \<open>key\<close> have been processed, the
  records \<open>before\<close> the record \<open>n\<close> have been checked without an error, and the check of
  \<open>n\<close> reaches an object rule that is not a valid regular expression (the slug of \<open>n\<close> can
  be read and no rule before it excludes \<open>n\<close>). Then \<open>runQuery\<close> throws
  \<open>Error("Excluded route is not a valid RegExp: ")\<close>. A record that an earlier rule
  excludes is dropped without the invalid rule being looked at.
\<close>

theorem C6_invalid_regexp_fatal_when_reached:
  assumes "fetchSources h q sz = Some (evs0, Inr (Some sources))"
    and "map fst sources = done @ key # todo"
    and "forEachSource m ex done sources = (evs1, Inr sources1)"
    and "applySerializer m key sources1 = (evs2, Inr sources2)"
    and "objectGet sources2 key = Some c" and "edges c = Some (before @ n # after)"
    and "\<forall>x\<in>set before. \<exists>b. keepNode ex key x = Inr b"
    and "ex = pre @ RouteObject False t # post"
    and "nodeSlug key n = Inr s"
    and "\<forall>r\<in>set pre. isExcludedBy key n r = Inr False"
  shows "runQuery h q m ex sz =
           Some (evs0 @ evs1 @ evs2, Inl (ErrorObj ''Excluded route is not a valid RegExp: '')) \<and>
         (\<forall>x. someE (isExcludedBy key x) pre = Inr True \<longrightarrow> keepNode ex key x = Inr False)"
proof
  have "isExcludedBy key n (RouteObject False t) =
          Inl (ErrorObj ''Excluded route is not a valid RegExp: '')"
    using assms(9) by (simp add: isExcludedBy_def)
  with assms(10) have "keepNode ex key n = Inl (ErrorObj ''Excluded route is not a valid RegExp: '')"
    unfolding assms(8) by (rule keepNode_reaches_error)
  with assms(1-7) show "runQuery h q m ex sz =
           Some (evs0 @ evs1 @ evs2, Inl (ErrorObj ''Excluded route is not a valid RegExp: ''))"
    by (rule runQuery_record_check_error)
  show "\<forall>x. someE (isExcludedBy key x) pre = Inr True \<longrightarrow> keepNode ex key x = Inr False"
    unfolding assms(8) by (simp add: keepNode_excluded_earlier)
qed

text \<open>
  The first record is excluded by the literal rule; the second one reaches the invalid
  rule.
\<close>

theorem C6_witness_second_record_reaches_rule:
  "runQuery (staticSource (ghostPosts [exampleNode ''a'' 0, exampleNode ''b'' 2]))
     (QueryString plainQueryString) None
     [RouteString ''a'', RouteObject False neverMatches] None =
     Some ([Query plainQueryString None],
           Inl (ErrorObj ''Excluded route is not a valid RegExp: ''))"
proof -
  let ?src = "ghostPosts [exampleNode ''a'' 0, exampleNode ''b'' 2]"
  let ?ex = "[RouteString ''a'', RouteObject False neverMatches] :: nat excludedRoute list"
  have 1: "fetchSources (staticSource ?src) (QueryString plainQueryString) None =
      Some ([Query plainQueryString None], Inr (Some ?src))"
    by (simp add: fetchSources_def staticSource_def)
  have 2: "map fst ?src = [] @ ''allGhostPost'' # []" by (simp add: ghostPosts_def)
  have 3: "forEachSource None ?ex [] ?src = ([], Inr ?src)" by simp
  have 4: "applySerializer None ''allGhostPost'' ?src = ([], Inr ?src)"
    by (simp add: applySerializer_def serializerOf_def)
  have 5: "objectGet ?src ''allGhostPost'' =
      Some \<lparr>edges = Some [exampleNode ''a'' 0, exampleNode ''b'' 2], hasNextPage = False\<rparr>"
    by (simp add: objectGet_def ghostPosts_def)
  have 6: "edges \<lparr>edges = Some [exampleNode ''a'' 0, exampleNode ''b'' 2], hasNextPage = False\<rparr>
      = Some ([exampleNode ''a'' 0] @ exampleNode ''b'' 2 # [])" by simp
  have 7: "\<forall>x\<in>set [exampleNode ''a'' 0]. \<exists>b. keepNode ?ex ''allGhostPost'' x = Inr b"
    by (auto simp: keepNode_def isExcludedBy_def nodeSlug_exampleNode replaceFirstOuterSlash_def)
  have 8: "?ex = [RouteString ''a''] @ RouteObject False neverMatches # []" by simp
  have 9: "nodeSlug ''allGhostPost'' (exampleNode ''b'' 2) = Inr ''b''"
    by (simp add: nodeSlug_exampleNode replaceFirstOuterSlash_def)
  have 10: "\<forall>r\<in>set [RouteString ''a''].
      isExcludedBy ''allGhostPost'' (exampleNode ''b'' 2) r = Inr False"
    by (simp add: isExcludedBy_def 9 replaceFirstOuterSlash_def Let_def)
  from C6_invalid_regexp_fatal_when_reached [OF 1 2 3 4 5 6 7 8 9 10] show ?thesis by simp
qed


text \<open>
  C7. The claim, that an exception thrown by an exclusion predicate aborts the build
  unmodified and unwrapped, fails: \<open>onPostBuild\<close> catches what \<open>runQuery\<close> throws and throws
  a new \<open>Error\<close> whose message starts with \<open>Something went wrong running custom query: \<close>.
\<close>

theorem C7_counterexample_exception_wrapped:
  "throwingPredicate (exampleNode ''a'' 0) = Inl (Rejected ''boom'') \<and>
   onPostBuildQueries (staticSource (ghostPosts [exampleNode ''a'' 0])) plainQueryString
     (customQueryOnlyOptions [RouteFunction throwingPredicate]) =
     Some ([Query plainQueryString None],
           Inl (ErrorObj ''Something went wrong running custom query: boom''))"
  by (simp add: throwingPredicate_def onPostBuildQueries_def runDefaultQuery_def
      runCustomQuery_def customQueryOnlyOptions_def truthyQuery_def plainQueryString_def postsMapping_def
      evalQuery)


text \<open>
  C7, amended. The exclusion check of a record \<open>n\<close> reaches a predicate rule \<open>f\<close>, and
  \<open>f n\<close> throws \<open>e\<close>. Then \<open>runQuery\<close> throws \<open>e\<close> itself: the exception is not swallowed
  and not changed on its way out of \<open>runQuery\<close>. \<open>onPostBuild\<close> ends the build with a new
  \<open>Error\<close> whose message is \<open>Something went wrong running custom query: \<close> (for the
  custom query) or \<open>Something went wrong running default query: \<close> (for the default
  query) followed by \<open>String(e)\<close>.
\<close>

theorem C7_predicate_exception_propagates_and_is_wrapped:
  assumes "fetchSources h q sz = Some (evs0, Inr (Some sources))"
    and "map fst sources = done @ key # todo"
    and "forEachSource m ex done sources = (evs1, Inr sources1)"
    and "applySerializer m key sources1 = (evs2, Inr sources2)"
    and "objectGet sources2 key = Some c" and "edges c = Some (before @ n # after)"
    and "\<forall>x\<in>set before. \<exists>b. keepNode ex key x = Inr b"
    and "ex = pre @ RouteFunction f # post"
    and "nodeSlug key n = Inr s"
    and "\<forall>r\<in>set pre. isExcludedBy key n r = Inr False"
    and "f n = Inl e"
  shows "runQuery h q m ex sz = Some (evs0 @ evs1 @ evs2, Inl e) \<and>
         (\<forall>opts DQ evsD d.
            query opts = Some q \<and> truthyQuery (Some q) \<and> mapping opts = m \<and> m \<noteq> None \<and>
            exclude opts = ex \<and> splitQueryPageSize opts = sz \<and>
            runDefaultQuery h DQ opts = Some (evsD, Inr d) \<longrightarrow>
            onPostBuildQueries h DQ opts =
              Some (evsD @ evs0 @ evs1 @ evs2,
                    Inl (ErrorObj (''Something went wrong running custom query: ''
                                     @ errorToString e)))) \<and>
         (\<forall>opts DQ.
            q = QueryString DQ \<and> m = None \<and> sz = None \<and> exclude opts = ex \<and>
            \<not> (skipDefaultQuery opts \<and> truthyQuery (query opts)) \<longrightarrow>
            onPostBuildQueries h DQ opts =
              Some (evs0 @ evs1 @ evs2,
                    Inl (ErrorObj (''Something went wrong running default query: ''
                                     @ errorToString e))))"
proof -
  have "isExcludedBy key n (RouteFunction f) = Inl e"
    using assms(9,11) by (simp add: isExcludedBy_def)
  with assms(10) have "keepNode ex key n = Inl e"
    unfolding assms(8) by (rule keepNode_reaches_error)
  with assms(1-7) have run: "runQuery h q m ex sz = Some (evs0 @ evs1 @ evs2, Inl e)"
    by (rule runQuery_record_check_error)
  have custom: "onPostBuildQueries h DQ opts =
              Some (evsD @ evs0 @ evs1 @ evs2,
                    Inl (ErrorObj (''Something went wrong running custom query: ''
                                     @ errorToString e)))"
    if "query opts = Some q" "truthyQuery (Some q)" "mapping opts = m" "m \<noteq> None"
      "exclude opts = ex" "splitQueryPageSize opts = sz"
      "runDefaultQuery h DQ opts = Some (evsD, Inr d)" for opts DQ evsD d
  proof -
    have "runCustomQuery h opts =
        Some (evs0 @ evs1 @ evs2,
              Inl (ErrorObj (''Something went wrong running custom query: '' @ errorToString e)))"
      using that(1,2) run that(3-6) by (intro runCustomQuery_error) auto
    from onPostBuildQueries_custom_error [OF that(7) this] show ?thesis .
  qed
  have dflt: "onPostBuildQueries h DQ opts =
              Some (evs0 @ evs1 @ evs2,
                    Inl (ErrorObj (''Something went wrong running default query: ''
                                     @ errorToString e)))"
    if "q = QueryString DQ" "m = None" "sz = None" "exclude opts = ex"
      "\<not> (skipDefaultQuery opts \<and> truthyQuery (query opts))" for opts DQ
  proof -
    have "runDefaultQuery h DQ opts =
        Some (evs0 @ evs1 @ evs2,
              Inl (ErrorObj (''Something went wrong running default query: '' @ errorToString e)))"
      using that(5) run that(1-4) by (intro runDefaultQuery_error) auto
    then show ?thesis by (rule onPostBuildQueries_default_error)
  qed
  from run custom dflt show ?thesis by blast
qed

theorem C7_witness_default_query:
  "runQuery (staticSource (sitePages [exampleNode ''/about/'' 0])) (QueryString defaultQueryString)
     None [RouteFunction throwingPredicate] None =
     Some ([Query defaultQueryString None], Inl (Rejected ''boom'')) \<and>
   onPostBuildQueries (staticSource (sitePages [exampleNode ''/about/'' 0])) defaultQueryString
     (defaultQueryOnlyOptions [RouteFunction throwingPredicate]) =
     Some ([Query defaultQueryString None],
           Inl (ErrorObj ''Something went wrong running default query: boom''))"
proof -
  let ?src = "sitePages [exampleNode ''/about/'' 0]"
  let ?ex = "[RouteFunction throwingPredicate]"
  have 1: "fetchSources (staticSource ?src) (QueryString defaultQueryString) None =
      Some ([Query defaultQueryString None], Inr (Some ?src))"
    by (simp add: fetchSources_def staticSource_def)
  have 2: "map fst ?src = [] @ ''allSitePage'' # []" by (simp add: sitePages_def)
  have 3: "forEachSource None ?ex [] ?src = ([], Inr ?src)" by simp
  have 4: "applySerializer None ''allSitePage'' ?src = ([], Inr ?src)"
    by (simp add: applySerializer_def serializerOf_def)
  have 5: "objectGet ?src ''allSitePage'' =
      Some \<lparr>edges = Some [exampleNode ''/about/'' 0], hasNextPage = False\<rparr>"
    by (simp add: objectGet_def sitePages_def)
  have 6: "edges \<lparr>edges = Some [exampleNode ''/about/'' 0], hasNextPage = False\<rparr>
      = Some ([] @ exampleNode ''/about/'' 0 # [])" by simp
  have 7: "\<forall>x\<in>set []. \<exists>b. keepNode ?ex ''allSitePage'' x = Inr b" by simp
  have 8: "?ex = [] @ RouteFunction throwingPredicate # []" by simp
  have 9: "nodeSlug ''allSitePage'' (exampleNode ''/about/'' 0) = Inr ''about/''"
    by (simp add: nodeSlug_exampleNode replaceFirstOuterSlash_def)
  have 10: "\<forall>r\<in>set []. isExcludedBy ''allSitePage'' (exampleNode ''/about/'' 0) r = Inr False"
    by simp
  have 11: "throwingPredicate (exampleNode ''/about/'' 0) = Inl (Rejected ''boom'')"
    by (simp add: throwingPredicate_def)
  note inst = C7_predicate_exception_propagates_and_is_wrapped [OF 1 2 3 4 5 6 7 8 9 10 11]
  from inst have run: "runQuery (staticSource ?src) (QueryString defaultQueryString)
     None ?ex None = Some ([Query defaultQueryString None], Inl (Rejected ''boom''))"
    by simp
  from inst have "\<forall>opts DQ.
      QueryString defaultQueryString = QueryString DQ \<and> (None :: nat mapping option) = None \<and>
      (None :: nat option) = None \<and> exclude opts = ?ex \<and>
      \<not> (skipDefaultQuery opts \<and> truthyQuery (query opts)) \<longrightarrow>
      onPostBuildQueries (staticSource ?src) DQ opts =
        Some ([] @ [] @ [Query defaultQueryString None],
              Inl (ErrorObj (''Something went wrong running default query: ''
                               @ errorToString (Rejected ''boom''))))"
    by simp
  then have "onPostBuildQueries (staticSource ?src) defaultQueryString
      (defaultQueryOnlyOptions ?ex) =
        Some ([] @ [] @ [Query defaultQueryString None],
              Inl (ErrorObj (''Something went wrong running default query: ''
                               @ errorToString (Rejected ''boom''))))"
    by (simp add: defaultQueryOnlyOptions_def)
  with run show ?thesis by simp
qed

text \<open>
  C8. The claim, that the serializer of every source with a configured serializer is
  invoked exactly once, fails in two ways. \<open>runQuery\<close> calls the serializer only if
  \<open>sources[sourceKey]\<close> is set and its \<open>edges\<close> are an array: here the custom query
  answers \<open>null\<close> for the field, and the serializer configured for it is never called.
  And \<open>onPostBuild\<close> runs the default query without the mapping: here a serializer is
  configured for \<open>allSitePage\<close>, the default query returns a page, and the serializer is
  never called.
\<close>

theorem C8_counterexample_serializer_never_called:
  "serializerOf (Some (serializedMapping reverseEdges)) ''allGhostPost'' = Some reverseEdges \<and>
   runQuery (staticSource nullSource) (QueryString plainQueryString)
     (Some (serializedMapping reverseEdges)) [] None =
     Some ([Query plainQueryString None], Inr nullSource) \<and>
   serializerOf (mapping sitePagesSerializerOptions) ''allSitePage'' = Some reverseEdges \<and>
   onPostBuildQueries (staticSource (sitePages [exampleNode ''/about/'' 0])) defaultQueryString
     sitePagesSerializerOptions =
     Some ([Query defaultQueryString None],
           Inr (None, Some (sitePages [exampleNode ''/about/'' 0])))"
  by (simp add: serializerOf_def serializedMapping_def nullSource_def runQuery_def
      fetchSources_def staticSource_def processSource_def applySerializer_def
      removeExcluded_def objectGet_def sitePagesSerializerOptions_def onPostBuildQueries_def
      runDefaultQuery_def runCustomQuery_def truthyQuery_def sitePages_def keepNode_def)

text \<open>
  C8, amended. The keys of the result of the custom query are pairwise different, and the
  mapping with which \<open>runQuery\<close> is called has a serializer \<open>f\<close> for the source \<open>key\<close>.
  \<^item> If the source has an edge array \<open>es\<close> and the sources before it have been processed
    without an error: the serializer has not been called before; at the source's turn it
    is called with the full raw edge list \<open>es\<close>, before the exclusion filter (and so
    before the records are normalised, which \<open>serialize\<close> does with what \<open>runQuery\<close>
    returns); an array it returns replaces the edge list and is what the exclusion filter
    reads, and an exception it throws is thrown on; over the whole walk through the
    sources it is called exactly once; and when it returns something that is not an
    array, the walk and \<open>runQuery\<close> end with
    \<open>Error("Custom sitemap serializer must return an array")\<close>.
  \<^item> If the result for the source is missing (the key is absent, or holds \<open>null\<close> or
    \<open>undefined\<close>) or has no edge array, the serializer is not called at all, whatever the
    walk through the sources does.
  \<^item> The default query is run without the mapping: whatever the options configure, no
    serializer is called while \<open>onPostBuild\<close> runs the default query.
\<close>

theorem C8_serializer_called_once_iff_edge_array:
  assumes dist: "distinct (map fst (sources :: 'x sources))" and ser: "serializerOf m key = Some f"
  shows "(\<forall>earlier later evs1 sources1 c es.
            map fst sources = earlier @ key # later \<and>
            forEachSource m ex earlier sources = (evs1, Inr sources1) \<and>
            objectGet sources key = Some c \<and> edges c = Some es \<longrightarrow>
            serializerCalls key evs1 = [] \<and>
            processSource m ex key sources1 =
              ([Serializer key es],
               case f es of
                 Inl e \<Rightarrow> Inl e
               | Inr None \<Rightarrow> Inl (ErrorObj ''Custom sitemap serializer must return an array'')
               | Inr (Some serializedEdges) \<Rightarrow>
                   removeExcluded ex key
                     (objectSet key (Some (c\<lparr>edges := Some serializedEdges\<rparr>)) sources1)) \<and>
            (\<forall>evs res. forEachSource m ex (map fst sources) sources = (evs, res) \<longrightarrow>
               serializerCalls key evs = [es]) \<and>
            (f es = Inr None \<longrightarrow>
               forEachSource m ex (map fst sources) sources =
                 (evs1 @ [Serializer key es],
                  Inl (ErrorObj ''Custom sitemap serializer must return an array'')) \<and>
               (\<forall>h q sz evs0. fetchSources h q sz = Some (evs0, Inr (Some sources)) \<longrightarrow>
                  runQuery h q m ex sz =
                    Some (evs0 @ evs1 @ [Serializer key es],
                          Inl (ErrorObj ''Custom sitemap serializer must return an array''))))) \<and>
         ((\<forall>c. objectGet sources key = Some c \<longrightarrow> edges c = None) \<longrightarrow>
            (\<forall>evs res. forEachSource m ex (map fst sources) sources = (evs, res) \<longrightarrow>
               serializerCalls key evs = [])) \<and>
         (\<forall>(h :: 'y handler) DQ opts evs r k.
            runDefaultQuery h DQ opts = Some (evs, r) \<longrightarrow> serializerCalls k evs = [])"
proof -
  have reached:
    "serializerCalls key evs1 = [] \<and>
     processSource m ex key sources1 =
       ([Serializer key es],
        case f es of
          Inl e \<Rightarrow> Inl e
        | Inr None \<Rightarrow> Inl (ErrorObj ''Custom sitemap serializer must return an array'')
        | Inr (Some serializedEdges) \<Rightarrow>
            removeExcluded ex key
              (objectSet key (Some (c\<lparr>edges := Some serializedEdges\<rparr>)) sources1)) \<and>
     (\<forall>evs res. forEachSource m ex (map fst sources) sources = (evs, res) \<longrightarrow>
        serializerCalls key evs = [es]) \<and>
     (f es = Inr None \<longrightarrow>
        forEachSource m ex (map fst sources) sources =
          (evs1 @ [Serializer key es],
           Inl (ErrorObj ''Custom sitemap serializer must return an array'')) \<and>
        (\<forall>h q sz evs0. fetchSources h q sz = Some (evs0, Inr (Some sources)) \<longrightarrow>
           runQuery h q m ex sz =
             Some (evs0 @ evs1 @ [Serializer key es],
                   Inl (ErrorObj ''Custom sitemap serializer must return an array''))))"
    if "map fst sources = earlier @ key # later \<and>
        forEachSource m ex earlier sources = (evs1, Inr sources1) \<and>
        objectGet sources key = Some c \<and> edges c = Some es"
    for earlier later evs1 sources1 c es
  proof -
    from that have keys: "map fst sources = earlier @ key # later"
      and before: "forEachSource m ex earlier sources = (evs1, Inr sources1)"
      and src: "objectGet sources key = Some c" and es: "edges c = Some es" by simp_all
    show ?thesis
      by (rule serializer_called_once_on_raw_edges [OF keys dist before ser src es])
  qed
  have missing: "serializerCalls key evs = []"
    if "\<forall>c. objectGet sources key = Some c \<longrightarrow> edges c = None"
      and "forEachSource m ex (map fst sources) sources = (evs, res)" for evs res
    using dist that by (rule forEachSource_no_edges)
  have dflt: "serializerCalls k evs = []"
    if "runDefaultQuery h DQ opts = Some (evs, r)" for h :: "'y handler" and DQ opts evs r k
    using that by (rule runDefaultQuery_no_serializer)
  show ?thesis
  proof (intro conjI)
    show "\<forall>earlier later evs1 sources1 c es.
            map fst sources = earlier @ key # later \<and>
            forEachSource m ex earlier sources = (evs1, Inr sources1) \<and>
            objectGet sources key = Some c \<and> edges c = Some es \<longrightarrow>
            serializerCalls key evs1 = [] \<and>
            processSource m ex key sources1 =
              ([Serializer key es],
               case f es of
                 Inl e \<Rightarrow> Inl e
               | Inr None \<Rightarrow> Inl (ErrorObj ''Custom sitemap serializer must return an array'')
               | Inr (Some serializedEdges) \<Rightarrow>
                   removeExcluded ex key
                     (objectSet key (Some (c\<lparr>edges := Some serializedEdges\<rparr>)) sources1)) \<and>
            (\<forall>evs res. forEachSource m ex (map fst sources) sources = (evs, res) \<longrightarrow>
               serializerCalls key evs = [es]) \<and>
            (f es = Inr None \<longrightarrow>
               forEachSource m ex (map fst sources) sources =
                 (evs1 @ [Serializer key es],
                  Inl (ErrorObj ''Custom sitemap serializer must return an array'')) \<and>
               (\<forall>h q sz evs0. fetchSources h q sz = Some (evs0, Inr (Some sources)) \<longrightarrow>
                  runQuery h q m ex sz =
                    Some (evs0 @ evs1 @ [Serializer key es],
                          Inl (ErrorObj ''Custom sitemap serializer must return an array''))))"
      using reached by (intro allI impI)
    show "(\<forall>c. objectGet sources key = Some c \<longrightarrow> edges c = None) \<longrightarrow>
            (\<forall>evs res. forEachSource m ex (map fst sources) sources = (evs, res) \<longrightarrow>
               serializerCalls key evs = [])"
      using missing by (intro allI impI)
    show "\<forall>(h :: 'y handler) DQ opts evs r k.
            runDefaultQuery h DQ opts = Some (evs, r) \<longrightarrow> serializerCalls k evs = []"
      using dflt by (intro allI impI)
  qed
qed

text \<open>
  A serializer that reverses the two records of the source: it is called once, with both
  records, and the exclusion filter drops the record \<open>a\<close> from the reversed list. A
  serializer that returns no array: the walk ends with the error. A source whose result is
  \<open>null\<close>: no call.
\<close>

theorem C8_witness_reversing_and_non_array:
  "processSource (Some (serializedMapping reverseEdges)) [RouteString ''a''] ''allGhostPost''
     (ghostPosts [exampleNode ''a'' 0, exampleNode ''b'' 2]) =
     ([Serializer ''allGhostPost'' [exampleNode ''a'' 0, exampleNode ''b'' 2]],
      Inr (ghostPosts [exampleNode ''b'' 2])) \<and>
   serializerCalls ''allGhostPost''
     (fst (forEachSource (Some (serializedMapping reverseEdges)) [RouteString ''a'']
             (map fst (ghostPosts [exampleNode ''a'' 0, exampleNode ''b'' 2]))
             (ghostPosts [exampleNode ''a'' 0, exampleNode ''b'' 2]))) =
     [[exampleNode ''a'' 0, exampleNode ''b'' 2]] \<and>
   forEachSource (Some (serializedMapping notAnArray)) [RouteString ''a'']
     (map fst (ghostPosts [exampleNode ''a'' 0, exampleNode ''b'' 2]))
     (ghostPosts [exampleNode ''a'' 0, exampleNode ''b'' 2]) =
     ([Serializer ''allGhostPost'' [exampleNode ''a'' 0, exampleNode ''b'' 2]],
      Inl (ErrorObj ''Custom sitemap serializer must return an array'')) \<and>
   serializerCalls ''allGhostPost''
     (fst (forEachSource (Some (serializedMapping reverseEdges)) [RouteString ''a'']
             (map fst nullSource) nullSource)) = []"
proof -
  let ?es = "[exampleNode ''a'' 0, exampleNode ''b'' 2]"
  let ?src = "ghostPosts ?es"
  let ?ex = "[RouteString ''a''] :: nat excludedRoute list"
  let ?c = "\<lparr>edges = Some ?es, hasNextPage = False\<rparr>"
  have keys: "map fst ?src = [] @ ''allGhostPost'' # []" by (simp add: ghostPosts_def)
  have dist: "distinct (map fst ?src)" by (simp add: ghostPosts_def)
  have dist0: "distinct (map fst nullSource)" by (simp add: nullSource_def)
  have before: "forEachSource m ?ex [] ?src = ([], Inr ?src)" for m by simp
  have ser: "serializerOf (Some (serializedMapping f)) ''allGhostPost'' = Some f" for f
    by (simp add: serializerOf_def serializedMapping_def)
  have src: "objectGet ?src ''allGhostPost'' = Some ?c" by (simp add: objectGet_def ghostPosts_def)
  have es: "edges ?c = Some ?es" by simp
  have none: "\<forall>c. objectGet nullSource ''allGhostPost'' = Some c \<longrightarrow> edges c = None"
    by (simp add: objectGet_def nullSource_def)
  note inst_rev = C8_serializer_called_once_iff_edge_array
    [OF dist ser, of reverseEdges ?ex, THEN conjunct1, rule_format, OF conjI [OF keys
      conjI [OF before conjI [OF src es]]]]
  note inst_bad = C8_serializer_called_once_iff_edge_array
    [OF dist ser, of notAnArray ?ex, THEN conjunct1, rule_format, OF conjI [OF keys
      conjI [OF before conjI [OF src es]]]]
  note inst_null = C8_serializer_called_once_iff_edge_array
    [OF dist0 ser, of reverseEdges ?ex, THEN conjunct2, THEN conjunct1, THEN mp, OF none,
      rule_format]
  have keep: "filterE (keepNode ?ex ''allGhostPost'') (rev ?es) = Inr [exampleNode ''b'' 2]"
    by (simp add: keepNode_def isExcludedBy_def nodeSlug_exampleNode replaceFirstOuterSlash_def
        Let_def)
  have "processSource (Some (serializedMapping reverseEdges)) ?ex ''allGhostPost'' ?src =
     ([Serializer ''allGhostPost'' ?es], Inr (ghostPosts [exampleNode ''b'' 2]))"
    using inst_rev [THEN conjunct2, THEN conjunct1] keep
    by (simp add: reverseEdges_def removeExcluded_def objectGet_def ghostPosts_def)
  moreover have "serializerCalls ''allGhostPost''
     (fst (forEachSource (Some (serializedMapping reverseEdges)) ?ex (map fst ?src) ?src)) = [?es]"
    using inst_rev [THEN conjunct2, THEN conjunct2, THEN conjunct1]
    by (metis prod.collapse)
  moreover have "forEachSource (Some (serializedMapping notAnArray)) ?ex (map fst ?src) ?src =
     ([Serializer ''allGhostPost'' ?es],
      Inl (ErrorObj ''Custom sitemap serializer must return an array''))"
    using inst_bad [THEN conjunct2, THEN conjunct2, THEN conjunct2]
    by (simp add: notAnArray_def)
  moreover have "serializerCalls ''allGhostPost''
     (fst (forEachSource (Some (serializedMapping reverseEdges)) ?ex
             (map fst nullSource) nullSource)) = []"
    using inst_null by (metis prod.collapse)
  ultimately show ?thesis by blast
qed

text \<open>
  C9. In \<open>fetchPages\<close> the records of the deeper pages are appended to the current page's
  list exactly when the current page's edge list and the edge list of the recursive
  result are both non-empty; in every other case the current page is returned as it is.
  So when a paged source has an intermediate page \<open>k\<close> (one that reports a next page) with
  zero edges, the run still asks for every page and returns without an error, and the
  edge list of its result is made of pages before \<open>k\<close> only: the records of all later pages
  are dropped.
\<close>

theorem C9_empty_intermediate_page_drops_later_pages:
  assumes "pagedSourceFrom h key qs (pageSizeOrDefault sz) 0 pages"
    and "Suc k < length pages" and "pages ! k = []"
  shows "(\<exists>c. splitQueryInSmallerBatches h key qs sz =
               Some (pageRequests qs (pageSizeOrDefault sz) 0 (length pages), Inr (Some c)) \<and>
             edges c = Some (concat (takeWhile (\<lambda>p. p \<noteq> []) (take k pages)))) \<and>
         (\<forall>t m. concatEdges (Some t) m =
            (case edges t of
               None \<Rightarrow> Some t
             | Some es \<Rightarrow>
                 (case m of
                    None \<Rightarrow> Some t
                  | Some tm \<Rightarrow>
                      (case edges tm of
                         None \<Rightarrow> Some t
                       | Some ms \<Rightarrow>
                           if es \<noteq> [] \<and> ms \<noteq> [] then Some (t\<lparr>edges := Some (es @ ms)\<rparr>)
                           else Some t))))"
proof -
  from assms(2) have ne: "pages \<noteq> []" by auto
  have "takeWhile (\<lambda>p. p \<noteq> []) pages = takeWhile (\<lambda>p. p \<noteq> []) (take k pages)"
    using assms(2,3) by (intro takeWhile_stops_at) auto
  with splitQuery_pagedSource [OF ne assms(1)]
  have "\<exists>c. splitQueryInSmallerBatches h key qs sz =
               Some (pageRequests qs (pageSizeOrDefault sz) 0 (length pages), Inr (Some c)) \<and>
             edges c = Some (concat (takeWhile (\<lambda>p. p \<noteq> []) (take k pages)))"
    by auto
  then show ?thesis by (simp add: concatEdges_def)
qed

theorem C9_witness_empty_second_page:
  "\<exists>c. splitQueryInSmallerBatches (simulatedSource ''allSitePage'' 1 pagesWithGap)
          ''allSitePage'' ''q'' (Some 1) =
          Some (pageRequests ''q'' 1 0 3, Inr (Some c)) \<and>
        edges c = Some [exampleNode ''a'' 0]"
proof -
  have paged: "pagedSourceFrom (simulatedSource ''allSitePage'' 1 pagesWithGap)
      ''allSitePage'' ''q'' (pageSizeOrDefault (Some 1)) 0 pagesWithGap"
    using simulatedSource_paged [of 1 "''allSitePage''" "[]" pagesWithGap "''q''"]
    by (simp add: pageSizeOrDefault_def)
  have k: "Suc 1 < length pagesWithGap" and empty: "pagesWithGap ! 1 = []"
    by (simp_all add: pagesWithGap_def)
  have len: "length pagesWithGap = 3"
    and kept: "concat (takeWhile (\<lambda>p. p \<noteq> []) (take 1 pagesWithGap)) = [exampleNode ''a'' 0]"
    and sz: "pageSizeOrDefault (Some 1) = 1"
    by (simp_all add: pagesWithGap_def pageSizeOrDefault_def)
  show ?thesis
    using C9_empty_intermediate_page_drops_later_pages [OF paged k empty, THEN conjunct1]
    unfolding len kept sz .
qed

text \<open>
  C10. \<open>withoutTrailingSlash\<close> returns \<open>undefined\<close> for every input string: the value of
  its conditional expression is never returned.
\<close>

theorem C10_withoutTrailingSlash_undefined: "withoutTrailingSlash path = Undefined"
  by (simp add: withoutTrailingSlash_def)

end
